theory Spec2Isabelle
  imports Complex_Main
begin

section \<open>Python values, errors and arrays\<close>

text \<open>
  The exceptions the two modules can raise. \<open>BlasError\<close> is the error of the BLAS
  wrapper when the inner dimensions of a product disagree.
\<close>

datatype pyerror =
    TypeError | ValueError | RuntimeError | NotImplementedError
  | AttributeError | KeyError | IndexError | LinAlgError | BlasError

text \<open>Element types of arrays: the two float types and an integer type.\<close>

datatype np_dtype = Float32 | Float64 | Int64

text \<open>The values a specification key such as \<open>'twoside'\<close> is given.\<close>

datatype pyval = PyNone | PyBool bool | PyStr string

text \<open>Python truthiness, as \<open>if v:\<close> evaluates it.\<close>

fun truthy :: "pyval \<Rightarrow> bool" where
  "truthy PyNone = False"
| "truthy (PyBool b) = b"
| "truthy (PyStr s) = (s \<noteq> [])"

text \<open>
  The \<open>specs\<close> dictionary of a component, restricted to the keys the encoders read;
  a key that is absent is \<open>None\<close>.
\<close>

record specs =
  spec_alpha :: "real option"
  spec_twoside :: "pyval option"
  spec_k :: "nat option"
  spec_reg :: "real option"
  spec_D_norm :: "real list option"

definition no_specs :: specs where
  "no_specs = \<lparr>spec_alpha = None, spec_twoside = None, spec_k = None, spec_reg = None,
                spec_D_norm = None\<rparr>"

text \<open>
  A 2-D array: its shape and its rows. An N-D array whose feature axis is the last one:
  the leading shape, the size of the last axis, and the rows obtained by
  \<open>reshape((prod(shape[:-1]), shape[-1]))\<close>.
\<close>

record mat =
  nr :: nat
  nc :: nat
  el :: "real list list"

record tensor =
  lead :: "nat list"
  width :: nat
  trows :: "real list list"

definition mat_T :: "mat \<Rightarrow> mat" where
  "mat_T A = \<lparr>nr = nc A, nc = nr A,
              el = map (\<lambda>j. map (\<lambda>r. r ! j) (el A)) [0..<nc A]\<rparr>"

definition mat_neg :: "mat \<Rightarrow> mat" where
  "mat_neg A = A\<lparr>el := map (map uminus) (el A)\<rparr>"

text \<open>The value of \<open>dot(A, B)\<close> on rows: the product of a row with the columns of B.\<close>

definition row_times :: "real list \<Rightarrow> mat \<Rightarrow> real list" where
  "row_times x B = map (\<lambda>j. \<Sum>i\<leftarrow>[0..<nr B]. x ! i * (el B ! i) ! j) [0..<nc B]"

definition dot :: "mat \<Rightarrow> mat \<Rightarrow> pyerror + mat" where
  "dot A B =
     (if nc A \<noteq> nr B then Inl BlasError
      else Inr \<lparr>nr = nr A, nc = nc B, el = map (\<lambda>x. row_times x B) (el A)\<rparr>)"

text \<open>
  \<open>dot_image\<close>: flatten all axes but the last, multiply, reshape back. Images are
  C-contiguous arrays, so the contiguity check of the source passes.
\<close>

definition dot_image :: "tensor \<Rightarrow> mat \<Rightarrow> pyerror + tensor" where
  "dot_image img B =
     (case dot \<lparr>nr = prod_list (lead img), nc = width img, el = trows img\<rparr> B of
        Inl e \<Rightarrow> Inl e
      | Inr output \<Rightarrow> Inr \<lparr>lead = lead img, width = nc B, trows = el output\<rparr>)"

section \<open>Feature encoders\<close>

text \<open>
  A feature encoder: the injected trainer (or None), the dictionary (None until trained)
  and the specs. A trainer maps a patch batch to a dictionary and diagnostics, or raises.
  A dictionary is a matrix, or the pair (W, b) of the linear encoders.
\<close>

datatype dict = DMat mat | DPair mat "real list"

record 'm FeatureEncoder =
  trainer :: "(mat \<Rightarrow> pyerror + dict \<times> 'm) option"
  dictionary :: "dict option"
  especs :: specs

definition FeatureEncoder_train ::
    "'m FeatureEncoder \<Rightarrow> mat \<Rightarrow> pyerror + 'm FeatureEncoder" where
  "FeatureEncoder_train self incoming_patches =
     (case trainer self of
        None \<Rightarrow> Inr self
      | Some t \<Rightarrow>
          (case t incoming_patches of
             Inl e \<Rightarrow> Inl e
           | Inr (d, misc) \<Rightarrow> Inr (self\<lparr>dictionary := Some d\<rparr>)))"

text \<open>The matrix of a dictionary, as \<open>self.dictionary.T\<close> and indexing need it.\<close>

fun the_matrix :: "dict option \<Rightarrow> pyerror + mat" where
  "the_matrix None = Inl AttributeError"
| "the_matrix (Some (DMat D)) = Inr D"
| "the_matrix (Some (DPair W b)) = Inl AttributeError"

subsection \<open>ThresholdEncoder\<close>

definition clip0 :: "real \<Rightarrow> real" where
  "clip0 v = max v 0"

definition ThresholdEncoder_process :: "'m FeatureEncoder \<Rightarrow> tensor \<Rightarrow> pyerror + tensor" where
  "ThresholdEncoder_process self img =
     (let a = (case spec_alpha (especs self) of None \<Rightarrow> 0.25 | Some v \<Rightarrow> v) in
      case the_matrix (dictionary self) of
        Inl e \<Rightarrow> Inl e
      | Inr D \<Rightarrow>
     (case dot_image img (mat_T D) of
        Inl e \<Rightarrow> Inl e
      | Inr output \<Rightarrow>
          (let N = width output;
               output2 =
                 (if truthy (case spec_twoside (especs self) of None \<Rightarrow> PyBool True | Some v \<Rightarrow> v)
                  then \<lparr>lead = lead output, width = N * 2,
                        trows = map (\<lambda>r. r @ map uminus r) (trows output)\<rparr>
                  else if spec_twoside (especs self) = Some (PyStr ''abs'')
                  then output\<lparr>trows := map (map abs) (trows output)\<rparr>
                  else output)
           in Inr (output2\<lparr>trows := map (map (\<lambda>v. clip0 (v - a))) (trows output2)\<rparr>))))"

subsection \<open>VQEncoder\<close>

text \<open>
  \<open>metrics.euclidean_distances(X, Y)\<close>: the matrix of Euclidean distances between the
  rows of X and the rows of Y; a different number of columns is a ValueError.
\<close>

definition euclidean_distances :: "mat \<Rightarrow> mat \<Rightarrow> pyerror + mat" where
  "euclidean_distances X Y =
     (if nc X \<noteq> nc Y then Inl ValueError
      else Inr \<lparr>nr = nr X, nc = nr Y,
                el = map (\<lambda>x. map (\<lambda>y. sqrt (\<Sum>(a, b)\<leftarrow>zip x y. (a - b)\<^sup>2)) (el Y)) (el X)\<rparr>)"

text \<open>\<open>argmin\<close> of one row: the first index that attains the minimum.\<close>

fun argmin_list :: "real list \<Rightarrow> nat" where
  "argmin_list [] = 0"
| "argmin_list [x] = 0"
| "argmin_list (x # y # ys) =
     (let j = argmin_list (y # ys) in if x \<le> (y # ys) ! j then 0 else Suc j)"

text \<open>\<open>distance.argmin(axis=1)\<close>; the argmin of an empty row is a ValueError.\<close>

definition argmin_axis1 :: "mat \<Rightarrow> pyerror + nat list" where
  "argmin_axis1 A = (if nc A = 0 then Inl ValueError else Inr (map argmin_list (el A)))"

text \<open>
  \<open>output[:, idx] = v\<close>: in every row, each column listed in \<open>idx\<close> is set to v.
\<close>

definition set_columns :: "nat list \<Rightarrow> real \<Rightarrow> real list list \<Rightarrow> real list list" where
  "set_columns idx v out = map (\<lambda>row. fold (\<lambda>j r. r[j := v]) idx row) out"

text \<open>
  The second argument of \<open>euclidean_distances\<close>: a dictionary that is still None makes
  the library compare X with itself; the pair of a linear encoder is not an array.
\<close>

fun distance_to :: "mat \<Rightarrow> dict option \<Rightarrow> pyerror + mat" where
  "distance_to X None = euclidean_distances X X"
| "distance_to X (Some (DMat D)) = euclidean_distances X D"
| "distance_to X (Some (DPair W b)) = Inl ValueError"

definition VQEncoder_process :: "'m FeatureEncoder \<Rightarrow> tensor \<Rightarrow> pyerror + tensor" where
  "VQEncoder_process self img =
     (let shape = lead img;
          num_channels = width img;
          image_2d = \<lparr>nr = prod_list shape, nc = num_channels, el = trows img\<rparr>
      in case distance_to image_2d (dictionary self) of
           Inl e \<Rightarrow> Inl e
         | Inr distance \<Rightarrow>
             (let output = map (map (\<lambda>_. 0)) (el distance) in
              case argmin_axis1 distance of
                Inl e \<Rightarrow> Inl e
              | Inr idx \<Rightarrow>
                  Inr \<lparr>lead = shape, width = nc distance, trows = set_columns idx 1 output\<rparr>))"

text \<open>The one-hot row of width n with its 1 at index i.\<close>

definition one_hot :: "nat \<Rightarrow> nat \<Rightarrow> real list" where
  "one_hot n i = map (\<lambda>j. if j = i then 1 else 0) [0..<n]"

subsection \<open>LLCEncoder\<close>

text \<open>
  Two library routines are parameters of the model. \<open>nearest K row\<close> is the index
  array that \<open>bn.argpartsort(distance, K, axis=1)\<close> or, without bottleneck,
  \<open>np.argsort(distance, 1)\<close> computes for one row; the source keeps its first K
  entries. \<open>solve C b\<close> is \<open>np.linalg.solve\<close>, which raises LinAlgError on a singular
  matrix.
\<close>

type_synonym nearest_fn = "nat \<Rightarrow> real list \<Rightarrow> nat list"
type_synonym solve_fn = "mat \<Rightarrow> real list \<Rightarrow> pyerror + real list"

text \<open>\<open>(D**2).sum(1) / 2.\<close>\<close>

definition half_sq_norms :: "mat \<Rightarrow> real list" where
  "half_sq_norms D = map (\<lambda>r. (\<Sum>v\<leftarrow>r. v\<^sup>2) / 2) (el D)"

text \<open>
  \<open>distance += D_norm\<close>: a vector as long as the rows is added to every row, a vector
  of length one is broadcast, any other length is a ValueError.
\<close>

definition add_rowvec :: "mat \<Rightarrow> real list \<Rightarrow> pyerror + mat" where
  "add_rowvec A v =
     (if length v = nc A then Inr (A\<lparr>el := map (\<lambda>r. map2 (+) r v) (el A)\<rparr>)
      else if length v = 1 then Inr (A\<lparr>el := map (map (\<lambda>a. a + v ! 0)) (el A)\<rparr>)
      else Inl ValueError)"

text \<open>\<open>C.flat[::K+1] += t\<close>: t is added to the diagonal of the K x K matrix.\<close>

definition add_diag :: "real \<Rightarrow> mat \<Rightarrow> mat" where
  "add_diag t C = C\<lparr>el := map (\<lambda>a. (el C ! a)[a := el C ! a ! a + t]) [0..<nr C]\<rparr>"

definition trace :: "mat \<Rightarrow> real" where
  "trace C = (\<Sum>a\<leftarrow>[0..<nr C]. el C ! a ! a)"

text \<open>
  The values a float array can hold: a real number, the two infinities and nan.
  \<open>a / b\<close> on floats does not raise when b is zero, and a sum that meets nan or
  both infinities is nan.
\<close>

datatype npfloat = Fin real | PosInf | NegInf | NaN

definition np_divide :: "real \<Rightarrow> real \<Rightarrow> npfloat" where
  "np_divide a b =
     (if b \<noteq> 0 then Fin (a / b)
      else if 0 < a then PosInf else if a < 0 then NegInf else NaN)"

fun np_add :: "npfloat \<Rightarrow> npfloat \<Rightarrow> npfloat" where
  "np_add (Fin a) (Fin b) = Fin (a + b)"
| "np_add NaN v = NaN"
| "np_add v NaN = NaN"
| "np_add PosInf NegInf = NaN"
| "np_add NegInf PosInf = NaN"
| "np_add PosInf v = PosInf"
| "np_add v PosInf = PosInf"
| "np_add NegInf v = NegInf"
| "np_add v NegInf = NegInf"

definition np_sum :: "npfloat list \<Rightarrow> npfloat" where
  "np_sum row = foldl np_add (Fin 0) row"

text \<open>The array that \<open>LLCEncoder.process\<close> returns: leading shape, last axis, rows.\<close>

record float_tensor =
  flead :: "nat list"
  fwidth :: nat
  frows :: "npfloat list list"

text \<open>
  \<open>row[idx] = vals\<close>: the entries listed are assigned in order. As many values as
  indices are needed, or a single value, which is broadcast; any other number is a
  ValueError.
\<close>

definition scatter :: "nat list \<Rightarrow> 'a list \<Rightarrow> 'a list \<Rightarrow> 'a list" where
  "scatter idx vals row = fold (\<lambda>(j, v) r. r[j := v]) (zip idx vals) row"

definition assign_at :: "nat list \<Rightarrow> 'a list \<Rightarrow> 'a list \<Rightarrow> pyerror + 'a list" where
  "assign_at idx vals row =
     (if length vals = length idx then Inr (scatter idx vals row)
      else if length vals = 1 then Inr (scatter idx (replicate (length idx) (vals ! 0)) row)
      else Inl ValueError)"

text \<open>
  \<open>Z[:] = D[IDX[i]]; Z -= X[i]\<close>: Z has K rows, so K neighbours are needed, or a
  single one, which is broadcast to all rows; any other number is a ValueError.
\<close>

definition llc_Z :: "nat \<Rightarrow> mat \<Rightarrow> nat list \<Rightarrow> real list \<Rightarrow> pyerror + mat" where
  "llc_Z K D idx x =
     (let picked = map (\<lambda>j. el D ! j) idx in
      if length picked = K
      then Inr \<lparr>nr = K, nc = nc D, el = map (\<lambda>d. map2 (-) d x) picked\<rparr>
      else if length picked = 1
      then Inr \<lparr>nr = K, nc = nc D, el = replicate K (map2 (-) (picked ! 0) x)\<rparr>
      else Inl ValueError)"

text \<open>\<open>C = mathutil.dot(Z, Z.T); C.flat[::K+1] += reg * C.trace()\<close>\<close>

definition llc_C :: "real \<Rightarrow> mat \<Rightarrow> pyerror + mat" where
  "llc_C r Z =
     (case dot Z (mat_T Z) of
        Inl e \<Rightarrow> Inl e
      | Inr C0 \<Rightarrow> Inr (add_diag (r * trace C0) C0))"

text \<open>
  The body of the loop for one input row x with its neighbour indices idx: the solve
  against \<open>np.ones(K)\<close>, and \<open>coeff[i][IDX[i]] = w / w.sum()\<close> on a row of zeros.
\<close>

definition llc_row ::
    "solve_fn \<Rightarrow> nat \<Rightarrow> real \<Rightarrow> mat \<Rightarrow> nat list \<Rightarrow> real list \<Rightarrow> pyerror + npfloat list" where
  "llc_row solve K r D idx x =
     (case llc_Z K D idx x of
        Inl e \<Rightarrow> Inl e
      | Inr Z \<Rightarrow>
     (case llc_C r Z of
        Inl e \<Rightarrow> Inl e
      | Inr C \<Rightarrow>
     (case solve C (replicate K 1) of
        Inl e \<Rightarrow> Inl e
      | Inr w \<Rightarrow>
          assign_at idx (map (\<lambda>v. np_divide v (sum_list w)) w) (replicate (nr D) (Fin 0)))))"

fun collect_rows :: "(pyerror + 'a) list \<Rightarrow> pyerror + 'a list" where
  "collect_rows [] = Inr []"
| "collect_rows (Inl e # rs) = Inl e"
| "collect_rows (Inr v # rs) =
     (case collect_rows rs of Inl e \<Rightarrow> Inl e | Inr vs \<Rightarrow> Inr (v # vs))"

text \<open>
  \<open>distance = mathutil.dot(X, -D.T); distance += D_norm\<close>, and the first K entries of
  the index array of every row.
\<close>

definition llc_distance :: "real list \<Rightarrow> mat \<Rightarrow> mat \<Rightarrow> pyerror + mat" where
  "llc_distance dnorm D X =
     (case dot X (mat_neg (mat_T D)) of
        Inl e \<Rightarrow> Inl e
      | Inr d0 \<Rightarrow> add_rowvec d0 dnorm)"

definition llc_IDX :: "nearest_fn \<Rightarrow> nat \<Rightarrow> mat \<Rightarrow> nat list list" where
  "llc_IDX nearest K distance = map (\<lambda>row. take K (nearest K row)) (el distance)"

text \<open>
  \<open>process\<close> from the point where \<open>D_norm = self.specs['D_norm']\<close> has been read: the
  distances, the K nearest indices of every row, and the loop over the rows.
\<close>

definition llc_encode ::
    "nearest_fn \<Rightarrow> solve_fn \<Rightarrow> nat \<Rightarrow> real \<Rightarrow> real list \<Rightarrow> dict option \<Rightarrow> tensor
       \<Rightarrow> pyerror + float_tensor" where
  "llc_encode nearest solve K r dnorm dct img =
     (case the_matrix dct of
        Inl e \<Rightarrow> Inl e
      | Inr D \<Rightarrow>
     (let X = \<lparr>nr = prod_list (lead img), nc = width img, el = trows img\<rparr> in
      case llc_distance dnorm D X of
        Inl e \<Rightarrow> Inl e
      | Inr distance \<Rightarrow>
          (let IDX = llc_IDX nearest K distance in
           case collect_rows (map (\<lambda>(idx, x). llc_row solve K r D idx x) (zip IDX (el X))) of
             Inl e \<Rightarrow> Inl e
           | Inr coeff \<Rightarrow> Inr \<lparr>flead = lead img, fwidth = nr D, frows = coeff\<rparr>)))"

text \<open>
  \<open>LLCEncoder.process\<close>. The specs are mutated before anything can fail after the
  norms are computed, so the encoder is returned next to the result. Squaring a
  dictionary that is None or a pair is a TypeError, raised before the store.
\<close>

definition LLCEncoder_process ::
    "nearest_fn \<Rightarrow> solve_fn \<Rightarrow> 'm FeatureEncoder \<Rightarrow> tensor
       \<Rightarrow> 'm FeatureEncoder \<times> (pyerror + float_tensor)" where
  "LLCEncoder_process nearest solve self img =
     (let K = (case spec_k (especs self) of None \<Rightarrow> 5 | Some v \<Rightarrow> v);
          r = (case spec_reg (especs self) of None \<Rightarrow> 0.0001 | Some v \<Rightarrow> v)
      in case spec_D_norm (especs self) of
           Some dnorm \<Rightarrow> (self, llc_encode nearest solve K r dnorm (dictionary self) img)
         | None \<Rightarrow>
             (case dictionary self of
                Some (DMat D) \<Rightarrow>
                  (let self' = self\<lparr>especs := (especs self)\<lparr>spec_D_norm := Some (half_sq_norms D)\<rparr>\<rparr>
                   in (self', llc_encode nearest solve K r (half_sq_norms D) (dictionary self') img))
              | _ \<Rightarrow> (self, Inl TypeError)))"

text \<open>
  What the two library routines guarantee: the index array is a permutation of the
  positions of the row, and a returned solution solves the system.
\<close>

definition nearest_perm :: "nearest_fn \<Rightarrow> bool" where
  "nearest_perm nearest \<longleftrightarrow>
     (\<forall>K row. distinct (nearest K row) \<and> set (nearest K row) = {..<length row})"

definition solve_sound :: "solve_fn \<Rightarrow> bool" where
  "solve_sound solve \<longleftrightarrow>
     (\<forall>C b w. solve C b = Inr w \<longrightarrow>
        length w = length b \<and>
        (\<forall>i<length b. (\<Sum>j<length b. el C ! i ! j * w ! j) = b ! i))"

text \<open>\<open>np.argsort\<close> of one row, as a stable sort of the indices by their values.\<close>

definition np_argsort :: nearest_fn where
  "np_argsort K row = map snd (sort_key fst (zip row [0..<length row]))"

text \<open>
  \<open>np.linalg.solve\<close> on systems with no unknown or with two unknowns (by Cramer's
  rule).
\<close>

definition solve_small :: solve_fn where
  "solve_small C b =
     (case (el C, b) of
        ([], []) \<Rightarrow> Inr []
      | ([[p, q], [s, t]], [y, z]) \<Rightarrow>
          (if p * t - q * s = 0 then Inl LinAlgError
           else Inr [(y * t - q * z) / (p * t - q * s), (p * z - y * s) / (p * t - q * s)])
      | _ \<Rightarrow> Inl LinAlgError)"

text \<open>
  What C4 says of a coefficient row: for the K selected indices idx and a dictionary of
  N rows, the row has N entries, is zero outside idx, has at most K nonzero entries,
  all entries are finite, and they sum to 1.
\<close>

definition llc_row_good :: "nat \<Rightarrow> nat \<Rightarrow> nat list \<Rightarrow> npfloat list \<Rightarrow> bool" where
  "llc_row_good K N idx row \<longleftrightarrow>
     length idx = K \<and> length row = N \<and> (\<forall>j<N. row ! j \<noteq> Fin 0 \<longrightarrow> j \<in> set idx)
     \<and> length (filter (\<lambda>v. v \<noteq> Fin 0) row) \<le> K
     \<and> (\<exists>vs. row = map Fin vs) \<and> np_sum row = Fin 1"

text \<open>
  The operations that can follow a first call of \<open>process\<close> on an LLC encoder. A call
  of \<open>train\<close> that raises leaves the encoder as it was.
\<close>

datatype encoder_op = Process tensor | Train mat

fun llc_apply ::
    "nearest_fn \<Rightarrow> solve_fn \<Rightarrow> 'm FeatureEncoder \<Rightarrow> encoder_op \<Rightarrow> 'm FeatureEncoder" where
  "llc_apply nearest solve self (Process img) = fst (LLCEncoder_process nearest solve self img)"
| "llc_apply nearest solve self (Train patches) =
     (case FeatureEncoder_train self patches of Inl e \<Rightarrow> self | Inr self' \<Rightarrow> self')"

section \<open>The convolutional layer\<close>

text \<open>
  The class of a component, as the \<open>isinstance\<close> tests of the layer see it:
  extractor, normalizer, feature encoder, pooler, or a plain \<open>Component\<close>.
\<close>

datatype kind = KExtractor | KNormalizer | KEncoder | KPooler | KComponent

text \<open>
  A component: its class, what \<open>train(patches)\<close> does (it raises, or leaves the
  component in a new state) and what \<open>process\<close> does.
\<close>

datatype comp = Comp (kind: kind) (train_fn: "mat \<Rightarrow> pyerror + comp")
  (process_fn: "mat \<Rightarrow> pyerror + mat")

text \<open>
  \<open>Extractor.train\<close> and \<open>Pooler.train\<close> raise RuntimeError; no subclass overrides
  them.
\<close>

definition component_train :: "comp \<Rightarrow> mat \<Rightarrow> pyerror + comp" where
  "component_train c patches =
     (if kind c = KExtractor \<or> kind c = KPooler then Inl RuntimeError
      else train_fn c patches)"

text \<open>The calls a layer makes on its components while it trains, in order.\<close>

datatype event = TrainCall nat mat | ProcessCall nat mat

text \<open>
  The loop \<open>for i in range(1, len(self))\<close> from index i on, over the components not
  yet visited: train, then stop if this was the last component or a pooler follows,
  else process the patches for the next component. The result is the calls made, the
  components as they are afterwards, and the exception raised, if any.
\<close>

fun train_loop :: "nat \<Rightarrow> comp list \<Rightarrow> mat \<Rightarrow> event list \<times> comp list \<times> pyerror option" where
  "train_loop i [] patches = ([], [], None)"
| "train_loop i (component # rest) patches =
     (case component_train component patches of
        Inl e \<Rightarrow> ([TrainCall i patches], component # rest, Some e)
      | Inr trained \<Rightarrow>
          if rest = [] \<or> kind (hd rest) = KPooler
          then ([TrainCall i patches], trained # rest, None)
          else
            (case process_fn trained patches of
               Inl e \<Rightarrow> ([TrainCall i patches, ProcessCall i patches], trained # rest, Some e)
             | Inr patches' \<Rightarrow>
                 (case train_loop (i + 1) rest patches' of
                    (tr, rest', r) \<Rightarrow>
                      (TrainCall i patches # ProcessCall i patches # tr, trained # rest', r))))"

text \<open>
  \<open>ConvLayer.train\<close>; \<open>sampled\<close> is what \<open>self[0].sample(...)\<close> returns or raises.
\<close>

definition ConvLayer_train ::
    "comp list \<Rightarrow> pyerror + mat \<Rightarrow> event list \<times> comp list \<times> pyerror option" where
  "ConvLayer_train self sampled =
     (if length self = 0 then ([], self, None)
      else if kind (self ! 0) \<noteq> KExtractor then ([], self, Some ValueError)
      else
        (case sampled of
           Inl e \<Rightarrow> ([], self, Some e)
         | Inr patches \<Rightarrow>
             if length self = 1 \<or> kind (self ! 1) = KPooler then ([], self, None)
             else
               (case train_loop 1 (tl self) patches of
                  (tr, rest, r) \<Rightarrow> (tr, hd self # rest, r))))"

text \<open>The \<open>train\<close> calls and the \<open>process\<close> calls of a trace.\<close>

fun train_calls :: "event list \<Rightarrow> (nat \<times> mat) list" where
  "train_calls [] = []"
| "train_calls (TrainCall i p # tr) = (i, p) # train_calls tr"
| "train_calls (ProcessCall i p # tr) = train_calls tr"

fun process_calls :: "event list \<Rightarrow> (nat \<times> mat) list" where
  "process_calls [] = []"
| "process_calls (TrainCall i p # tr) = process_calls tr"
| "process_calls (ProcessCall i p # tr) = (i, p) # process_calls tr"

text \<open>
  The components that the protocol trains: those after the first one, up to the first
  pooler.
\<close>

definition trainees :: "comp list \<Rightarrow> comp list" where
  "trainees self = takeWhile (\<lambda>c. kind c \<noteq> KPooler) (tl self)"


section \<open>The reservoir sampler\<close>

text \<open>
  A feature batch: \<open>feature.shape[1:]\<close>, \<open>feature.dtype\<close> and its rows. The
  reservoir array \<open>self._data\<close>: its trailing shape, its element type and its
  \<open>num_samples\<close> rows, where a row that \<open>np.empty\<close> left uninitialised is None.
\<close>

record 'a batch =
  tshape :: "nat list"
  bdtype :: np_dtype
  items :: "'a list"

record 'a reservoir =
  rshape :: "nat list"
  rdtype :: np_dtype
  rrows :: "'a option list"

text \<open>The sampler; \<open>data = None\<close> is \<open>self._data is None\<close>.\<close>

record 'a ReservoirSampler =
  num_samples :: nat
  current :: nat
  data :: "'a reservoir option"

definition ReservoirSampler_init :: "nat \<Rightarrow> 'a ReservoirSampler" where
  "ReservoirSampler_init n = \<lparr>num_samples = n, current = 0, data = None\<rparr>"

text \<open>
  The random draws of one call. The i-th entry of \<open>np.random.rand(batch_size)\<close> is
  the fractional part of \<open>rand g i\<close>, a number in [0, 1); the i-th entry of
  \<open>np.random.randint(high, size=n)\<close> is \<open>randint g i mod high\<close>. Every outcome in
  range is covered. An empty draw succeeds for every \<open>high\<close>; a non-empty draw
  below \<open>high = 0\<close> raises ValueError.
\<close>

record rng =
  rand :: "nat \<Rightarrow> real"
  randint :: "nat \<Rightarrow> nat"

definition np_rand :: "rng \<Rightarrow> nat \<Rightarrow> real" where
  "np_rand g i = frac (rand g i)"

definition np_randint :: "rng \<Rightarrow> nat \<Rightarrow> nat \<Rightarrow> pyerror + nat list" where
  "np_randint g high n =
     (if high = 0 \<and> n \<noteq> 0 then Inl ValueError
      else Inr (map (\<lambda>i. randint g i mod high) [0..<n]))"

text \<open>
  The allocation or the shape test at the head of \<open>consider\<close>. The array is
  allocated with the element type of the batch that is considered first.
\<close>

definition prepare :: "'a ReservoirSampler \<Rightarrow> 'a batch \<Rightarrow> pyerror + 'a reservoir" where
  "prepare self feature =
     (case data self of
        None \<Rightarrow> Inr \<lparr>rshape = tshape feature, rdtype = bdtype feature,
                    rrows = replicate (num_samples self) None\<rparr>
      | Some d \<Rightarrow> if rshape d \<noteq> tshape feature then Inl ValueError else Inr d)"

text \<open>
  Rows assigned into an array take the array's element type: rows of a batch of
  another type are converted by \<open>cast\<close>, which is a parameter.
\<close>

definition stored :: "(np_dtype \<Rightarrow> 'a \<Rightarrow> 'a) \<Rightarrow> np_dtype \<Rightarrow> np_dtype \<Rightarrow> 'a list \<Rightarrow> 'a list" where
  "stored cast dt batch_dt rows = (if batch_dt = dt then rows else map (cast dt) rows)"

text \<open>
  \<open>data[idxs] = vals\<close>, assigned in order, and \<open>data[start:start+len(vals)] = vals\<close>.
\<close>

definition assign_rows :: "nat list \<Rightarrow> 'a list \<Rightarrow> 'a option list \<Rightarrow> 'a option list" where
  "assign_rows idxs vals rows = fold (\<lambda>(j, v) r. r[j := Some v]) (zip idxs vals) rows"

definition assign_slice :: "nat \<Rightarrow> 'a list \<Rightarrow> 'a option list \<Rightarrow> 'a option list" where
  "assign_slice start vals rows =
     take start rows @ map Some vals @ drop (start + length vals) rows"

text \<open>
  \<open>consider\<close>. Once the reservoir is full, row i of the batch is selected when its
  uniform draw is below \<open>num_samples / (current + 1 + i)\<close>, and the selected rows
  overwrite randomly drawn slots. Before that the batch fills the free slots and the
  function calls itself on the rows left over.
\<close>

function ReservoirSampler_consider ::
    "(np_dtype \<Rightarrow> 'a \<Rightarrow> 'a) \<Rightarrow> rng \<Rightarrow> 'a ReservoirSampler \<Rightarrow> 'a batch
       \<Rightarrow> pyerror + 'a ReservoirSampler" where
  "ReservoirSampler_consider cast g self feature =
     (case prepare self feature of
        Inl e \<Rightarrow> Inl e
      | Inr d \<Rightarrow>
          (let batch_size = length (items feature) in
           if current self \<ge> num_samples self then
             (let selected = map (\<lambda>i. np_rand g i
                                  < real (num_samples self) / real (current self + 1 + i))
                               [0..<batch_size];
                  chosen = map fst (filter snd (zip (items feature) selected));
                  count = length chosen
              in case np_randint g (num_samples self) count of
                   Inl e \<Rightarrow> Inl e
                 | Inr idxs \<Rightarrow>
                     Inr (self\<lparr>data := Some (d\<lparr>rrows := assign_rows idxs
                                   (stored cast (rdtype d) (bdtype feature) chosen) (rrows d)\<rparr>),
                               current := current self + batch_size\<rparr>))
           else
             (let count = min (num_samples self - current self) batch_size;
                  self' = self\<lparr>data := Some (d\<lparr>rrows := assign_slice (current self)
                                   (stored cast (rdtype d) (bdtype feature)
                                      (take count (items feature))) (rrows d)\<rparr>),
                               current := current self + count\<rparr>
              in if count < batch_size
                 then ReservoirSampler_consider cast g self' (feature\<lparr>items := drop count (items feature)\<rparr>)
                 else Inr self')))"
  by pat_completeness auto
termination
  by (relation "measure (\<lambda>(cast, g, self, feature). length (items feature))") auto

text \<open>
  \<open>num_considered\<close> and \<open>get\<close>. Slicing \<open>self._data\<close> while it is still None is a
  TypeError.
\<close>

definition num_considered :: "'a ReservoirSampler \<Rightarrow> nat" where
  "num_considered self = current self"

definition ReservoirSampler_get :: "'a ReservoirSampler \<Rightarrow> pyerror + 'a reservoir option" where
  "ReservoirSampler_get self =
     (if current self < num_samples self then
        (case data self of
           None \<Rightarrow> Inl TypeError
         | Some d \<Rightarrow> Inr (Some (d\<lparr>rrows := take (current self) (rrows d)\<rparr>)))
      else Inr (data self))"

text \<open>A sequence of \<open>consider\<close> calls, each with its own random draws.\<close>

fun consider_all ::
    "(np_dtype \<Rightarrow> 'a \<Rightarrow> 'a) \<Rightarrow> 'a ReservoirSampler \<Rightarrow> (rng \<times> 'a batch) list
       \<Rightarrow> pyerror + 'a ReservoirSampler" where
  "consider_all cast self [] = Inr self"
| "consider_all cast self ((g, feature) # calls) =
     (case ReservoirSampler_consider cast g self feature of
        Inl e \<Rightarrow> Inl e
      | Inr self' \<Rightarrow> consider_all cast self' calls)"


text \<open>
  The state after the rows xs have been considered, for capacity c, trailing shape sh
  and element type dt: the count is right, the array is allocated with c rows, its first
  \<open>min c (length xs)\<close> rows are rows of xs, and while the reservoir is not over-full
  they are exactly xs.
\<close>

definition filled ::
    "nat \<Rightarrow> nat list \<Rightarrow> np_dtype \<Rightarrow> 'a list \<Rightarrow> 'a ReservoirSampler \<Rightarrow> bool" where
  "filled c sh dt xs s \<longleftrightarrow>
     num_samples s = c \<and> current s = length xs \<and>
     (\<exists>d. data s = Some d \<and> rshape d = sh \<and> rdtype d = dt \<and> length (rrows d) = c
        \<and> (\<forall>k<min c (length xs). \<exists>y\<in>set xs. rrows d ! k = Some y)
        \<and> (length xs \<le> c \<longrightarrow> take (length xs) (rrows d) = map Some xs))"


section \<open>The GEMM wrapper\<close>

text \<open>
  A 2-D \<open>ndarray\<close> as a view of its storage: shape, strides (in elements), the two
  contiguity flags, the element type, and the storage as a map from offsets to values.
  Values are real numbers; rounding is not modelled.
\<close>

record ndarray =
  shape0 :: nat
  shape1 :: nat
  stride0 :: nat
  stride1 :: nat
  c_contiguous :: bool
  f_contiguous :: bool
  dtype :: np_dtype
  storage :: "nat \<Rightarrow> real"

text \<open>The element at (i, j) of the view.\<close>

definition elem :: "ndarray \<Rightarrow> nat \<Rightarrow> nat \<Rightarrow> real" where
  "elem X i j = storage X (i * stride0 X + j * stride1 X)"

text \<open>
  What a contiguity flag promises: under \<open>C_CONTIGUOUS\<close> the element (i, j) lies at
  offset \<open>i * shape1 + j\<close>, under \<open>F_CONTIGUOUS\<close> at \<open>i + j * shape0\<close>. NumPy versions
  differ on the flags of arrays with an axis of length one, so the flags are fields and
  only this promise is assumed of them.
\<close>

definition flags_sound :: "ndarray \<Rightarrow> bool" where
  "flags_sound X \<longleftrightarrow>
     (c_contiguous X \<longrightarrow>
        (\<forall>i<shape0 X. \<forall>j<shape1 X. i * stride0 X + j * stride1 X = i * shape1 X + j)) \<and>
     (f_contiguous X \<longrightarrow>
        (\<forall>i<shape0 X. \<forall>j<shape1 X. i * stride0 X + j * stride1 X = i + j * shape0 X))"

text \<open>\<open>X.T\<close>: the same storage, with shape, strides and flags swapped.\<close>

definition ndarray_T :: "ndarray \<Rightarrow> ndarray" where
  "ndarray_T X = X\<lparr>shape0 := shape1 X, shape1 := shape0 X,
                    stride0 := stride1 X, stride1 := stride0 X,
                    c_contiguous := f_contiguous X, f_contiguous := c_contiguous X\<rparr>"

text \<open>A newly allocated array in C order, or in Fortran order, holding \<open>f i j\<close>.\<close>

definition fresh_C :: "nat \<Rightarrow> nat \<Rightarrow> np_dtype \<Rightarrow> (nat \<Rightarrow> nat \<Rightarrow> real) \<Rightarrow> ndarray" where
  "fresh_C m n dt f =
     \<lparr>shape0 = m, shape1 = n, stride0 = n, stride1 = 1,
      c_contiguous = True, f_contiguous = (m \<le> 1 \<or> n \<le> 1), dtype = dt,
      storage = (\<lambda>p. f (p div n) (p mod n))\<rparr>"

definition fresh_F :: "nat \<Rightarrow> nat \<Rightarrow> np_dtype \<Rightarrow> (nat \<Rightarrow> nat \<Rightarrow> real) \<Rightarrow> ndarray" where
  "fresh_F m n dt f =
     \<lparr>shape0 = m, shape1 = n, stride0 = 1, stride1 = m,
      c_contiguous = (m \<le> 1 \<or> n \<le> 1), f_contiguous = True, dtype = dt,
      storage = (\<lambda>p. f (p mod m) (p div m))\<rparr>"

text \<open>
  The copies of an input's storage that a call can make: the dtype conversion of
  \<open>np.asarray\<close>, and the repacking by the BLAS wrapper of an operand that is not
  Fortran-contiguous.
\<close>

datatype operand = OperandA | OperandB

datatype copy_event = Converted operand | Repacked operand

text \<open>
  \<open>np.asarray(X, dtype=dt)\<close>: X itself when it has the type, else a new array with
  every element converted by \<open>cast\<close>.
\<close>

definition np_asarray ::
    "(np_dtype \<Rightarrow> real \<Rightarrow> real) \<Rightarrow> operand \<Rightarrow> ndarray \<Rightarrow> np_dtype \<Rightarrow> ndarray \<times> copy_event list" where
  "np_asarray cast who X dt =
     (if dtype X = dt then (X, [])
      else (fresh_C (shape0 X) (shape1 X) dt (\<lambda>i j. cast dt (elem X i j)), [Converted who]))"

text \<open>
  How the BLAS wrapper reads an operand: a Fortran-contiguous array in place, as a
  column-major matrix with leading dimension \<open>shape0\<close>; any other array through a
  repacked copy.
\<close>

definition f2py_operand :: "operand \<Rightarrow> ndarray \<Rightarrow> (nat \<Rightarrow> nat \<Rightarrow> real) \<times> copy_event list" where
  "f2py_operand who x =
     (if f_contiguous x then (\<lambda>i j. storage x (i + j * shape0 x), [])
      else (elem x, [Repacked who]))"

text \<open>
  \<open>sgemm\<close>/\<open>dgemm\<close>: \<open>alpha * op(a) * op(b)\<close> as a new Fortran-ordered array, with
  \<open>op(x)\<close> the transpose of x when its flag is set; different inner dimensions raise.
\<close>

definition fblas_gemm ::
    "real \<Rightarrow> operand \<times> ndarray \<Rightarrow> operand \<times> ndarray \<Rightarrow> bool \<Rightarrow> bool \<Rightarrow> np_dtype
       \<Rightarrow> pyerror + ndarray \<times> copy_event list" where
  "fblas_gemm alpha a b trans_a trans_b dt =
     (case f2py_operand (fst a) (snd a) of (ra, ca) \<Rightarrow>
      case f2py_operand (fst b) (snd b) of (rb, cb) \<Rightarrow>
        let m = (if trans_a then shape1 (snd a) else shape0 (snd a));
            ka = (if trans_a then shape0 (snd a) else shape1 (snd a));
            kb = (if trans_b then shape1 (snd b) else shape0 (snd b));
            n = (if trans_b then shape0 (snd b) else shape1 (snd b));
            opa = (\<lambda>i l. if trans_a then ra l i else ra i l);
            opb = (\<lambda>l j. if trans_b then rb j l else rb l j)
        in if ka \<noteq> kb then Inl BlasError
           else Inr (fresh_F m n dt (\<lambda>i j. alpha * (\<Sum>l<ka. opa i l * opb l j)), ca @ cb))"

text \<open>
  The choice \<open>gemm\<close> makes for each operand: pass a Fortran-contiguous array as it is
  with the transpose flag 1, any other one as its transposed view with the flag 0.
\<close>

definition as_fortran :: "ndarray \<Rightarrow> ndarray \<times> bool" where
  "as_fortran X = (if \<not> f_contiguous X then (ndarray_T X, False) else (X, True))"

text \<open>
  \<open>gemm(alpha, A, B, dtype)\<close> without an output buffer. The result comes with the
  list of copies made.
\<close>

definition gemm ::
    "(np_dtype \<Rightarrow> real \<Rightarrow> real) \<Rightarrow> real \<Rightarrow> ndarray \<Rightarrow> ndarray \<Rightarrow> np_dtype option
       \<Rightarrow> pyerror + ndarray \<times> copy_event list" where
  "gemm cast alpha A B dtype_arg =
     (let dt = (case dtype_arg of None \<Rightarrow> dtype A | Some d \<Rightarrow> d) in
      if dt \<noteq> Float32 \<and> dt \<noteq> Float64 then Inl TypeError
      else if \<not> (f_contiguous A \<or> c_contiguous A) \<or> \<not> (f_contiguous B \<or> c_contiguous B)
      then Inl TypeError
      else
        (case np_asarray cast OperandA A dt of (A1, convA) \<Rightarrow>
         case np_asarray cast OperandB B dt of (B1, convB) \<Rightarrow>
         case as_fortran B1 of (B2, trans_b) \<Rightarrow>
         case as_fortran A1 of (A2, trans_a) \<Rightarrow>
         case fblas_gemm alpha (OperandB, B2) (OperandA, A2) trans_b trans_a dt of
           Inl e \<Rightarrow> Inl e
         | Inr (c, repacked) \<Rightarrow> Inr (ndarray_T c, convA @ convB @ repacked)))"


section \<open>Dictionary trainers\<close>

text \<open>
  The names that \<open>mathutil.py\<close> binds at module level, and attribute lookup on a
  module.
\<close>

datatype pyobj = PyModule | PyFunction | PyClass

definition mathutil_module :: "(string \<times> pyobj) list" where
  "mathutil_module =
     [(''np'', PyModule), (''mpi'', PyModule), (''gemm'', PyFunction), (''dot'', PyFunction),
      (''dot_image'', PyFunction), (''exp'', PyFunction), (''log'', PyFunction),
      (''ReservoirSampler'', PyClass), (''mpi_mean'', PyFunction), (''mpi_std'', PyFunction),
      (''mpi_cov'', PyFunction)]"

definition getattr_module :: "(string \<times> pyobj) list \<Rightarrow> string \<Rightarrow> pyerror + pyobj" where
  "getattr_module namespace name =
     (case map_of namespace name of None \<Rightarrow> Inl AttributeError | Some v \<Rightarrow> Inr v)"

text \<open>
  Calling a module function on a patch batch for a (mean, covariance) pair, and
  \<open>np.linalg.eigh\<close>, are parameters. The process is the root, and \<open>bcast\<close> on it
  returns its argument.
\<close>

type_synonym call_fn = "pyobj \<Rightarrow> mat \<Rightarrow> pyerror + real list \<times> mat"
type_synonym eigh_fn = "mat \<Rightarrow> pyerror + real list \<times> mat"

text \<open>\<open>np.finfo(np.float64).eps\<close>.\<close>

definition float64_eps :: real where
  "float64_eps = 1 / 2 ^ 52"

text \<open>
  \<open>eigvec * 1.0 / (np.sqrt(np.maximum(eigval, 0.0)) + reg)\<close>: column j of eigvec is
  divided by \<open>sqrt(max(eigval[j], 0)) + reg\<close>.
\<close>

definition whiten :: "mat \<Rightarrow> real list \<Rightarrow> real \<Rightarrow> mat" where
  "whiten eigvec eigval r =
     eigvec\<lparr>el := map (\<lambda>row. map2 (\<lambda>v ev. v * 1 / (sqrt (max ev 0) + r)) row eigval)
                    (el eigvec)\<rparr>"

definition PcaTrainer_train ::
    "call_fn \<Rightarrow> eigh_fn \<Rightarrow> specs \<Rightarrow> mat \<Rightarrow> pyerror + dict \<times> (real list \<times> mat \<times> mat)" where
  "PcaTrainer_train call eigh sp incoming_patches =
     (case getattr_module mathutil_module ''mpi_meancov'' of
        Inl e \<Rightarrow> Inl e
      | Inr mpi_meancov \<Rightarrow>
     (case call mpi_meancov incoming_patches of
        Inl e \<Rightarrow> Inl e
      | Inr (m, covmat) \<Rightarrow>
     (case eigh covmat of
        Inl e \<Rightarrow> Inl e
      | Inr (eigval, eigvec) \<Rightarrow>
          (let r = (case spec_reg sp of None \<Rightarrow> float64_eps | Some v \<Rightarrow> v);
               W = whiten eigvec eigval r
           in Inr (DPair W (map uminus m), (eigval, eigvec, covmat))))))"

definition ZcaTrainer_train ::
    "call_fn \<Rightarrow> eigh_fn \<Rightarrow> specs \<Rightarrow> mat \<Rightarrow> pyerror + dict \<times> (real list \<times> mat \<times> mat)" where
  "ZcaTrainer_train call eigh sp incoming_patches =
     (case PcaTrainer_train call eigh sp incoming_patches of
        Inl e \<Rightarrow> Inl e
      | Inr (DMat D, misc) \<Rightarrow> Inl TypeError
      | Inr (DPair W b, (eigval, eigvec, covmat)) \<Rightarrow>
          (case dot W (mat_T eigvec) of
             Inl e \<Rightarrow> Inl ValueError
           | Inr W' \<Rightarrow> Inr (DPair W' b, (eigval, eigvec, covmat))))"


section \<open>Example inputs\<close>

text \<open>A one-atom dictionary, and threshold encoders over it in each mode.\<close>

definition unit_dictionary :: mat where
  "unit_dictionary = \<lparr>nr = 1, nc = 1, el = [[1]]\<rparr>"

definition threshold_encoder :: "pyval option \<Rightarrow> unit FeatureEncoder" where
  "threshold_encoder mode =
     \<lparr>trainer = None, dictionary = Some (DMat unit_dictionary),
      especs = no_specs\<lparr>spec_twoside := mode\<rparr>\<rparr>"

definition one_pixel :: "real \<Rightarrow> tensor" where
  "one_pixel v = \<lparr>lead = [1], width = 1, trows = [[v]]\<rparr>"

text \<open>Two centroids on the line, and a batch of two points, one on each centroid.\<close>

definition two_centroids :: mat where
  "two_centroids = \<lparr>nr = 2, nc = 1, el = [[0], [1]]\<rparr>"

definition vq_encoder :: "unit FeatureEncoder" where
  "vq_encoder = \<lparr>trainer = None, dictionary = Some (DMat two_centroids), especs = no_specs\<rparr>"

definition two_points :: tensor where
  "two_points = \<lparr>lead = [2], width = 1, trows = [[0], [1]]\<rparr>"

text \<open>
  Three atoms on the line, an LLC encoder with K = 2 and reg = 1 over them, the input 0,
  and a trainer that returns the same atoms in another order.
\<close>

definition three_atoms :: mat where
  "three_atoms = \<lparr>nr = 3, nc = 1, el = [[5], [1], [2]]\<rparr>"

definition llc_encoder :: "unit FeatureEncoder" where
  "llc_encoder = \<lparr>trainer = None, dictionary = Some (DMat three_atoms),
                  especs = no_specs\<lparr>spec_k := Some 2, spec_reg := Some 1\<rparr>\<rparr>"

definition origin :: tensor where
  "origin = \<lparr>lead = [1], width = 1, trows = [[0]]\<rparr>"

text \<open>
  Two orthogonal atoms in the plane with the input (0, 0), encoded with K = 2 and the
  regulariser -1/2; and the three atoms encoded with K = 0.
\<close>

definition two_atoms :: mat where
  "two_atoms = \<lparr>nr = 2, nc = 2, el = [[1, 0], [0, 2]]\<rparr>"

definition negative_reg_encoder :: "unit FeatureEncoder" where
  "negative_reg_encoder = \<lparr>trainer = None, dictionary = Some (DMat two_atoms),
       especs = no_specs\<lparr>spec_k := Some 2, spec_reg := Some (- 1 / 2)\<rparr>\<rparr>"

definition plane_origin :: tensor where
  "plane_origin = \<lparr>lead = [1], width = 2, trows = [[0, 0]]\<rparr>"

definition no_neighbour_encoder :: "unit FeatureEncoder" where
  "no_neighbour_encoder = \<lparr>trainer = None, dictionary = Some (DMat three_atoms),
       especs = no_specs\<lparr>spec_k := Some 0\<rparr>\<rparr>"

definition swapped_atoms :: mat where
  "swapped_atoms = \<lparr>nr = 3, nc = 1, el = [[1], [5], [2]]\<rparr>"

definition retrainable_llc_encoder :: "unit FeatureEncoder" where
  "retrainable_llc_encoder =
     llc_encoder\<lparr>trainer := Some (\<lambda>patches. Inr (DMat swapped_atoms, ()))\<rparr>"

text \<open>
  A layer of five stages with a pooler in fourth place. Training a stage gives a stage
  whose \<open>process\<close> doubles every entry.
\<close>

definition a_batch :: mat where
  "a_batch = \<lparr>nr = 1, nc = 1, el = [[3]]\<rparr>"

definition doubled :: "mat \<Rightarrow> mat" where
  "doubled p = p\<lparr>el := map (map (\<lambda>v. 2 * v)) (el p)\<rparr>"

definition trained_stage :: "kind \<Rightarrow> comp" where
  "trained_stage knd = Comp knd (\<lambda>p. Inl NotImplementedError) (\<lambda>p. Inr (doubled p))"

definition stage :: "kind \<Rightarrow> comp" where
  "stage knd = Comp knd (\<lambda>p. Inr (trained_stage knd)) (\<lambda>p. Inl NotImplementedError)"

definition five_stage_layer :: "comp list" where
  "five_stage_layer =
     [stage KExtractor, stage KNormalizer, stage KEncoder, stage KPooler, stage KEncoder]"


text \<open>Random draws that select every row and overwrite slot i with the i-th selected row.\<close>

definition always_first :: rng where
  "always_first = \<lparr>rand = (\<lambda>i. 0), randint = (\<lambda>i. i)\<rparr>"

definition three_rows :: "real batch" where
  "three_rows = \<lparr>tshape = [], bdtype = Float64, items = [10, 20, 30]\<rparr>"

text \<open>
  A conversion that truncates towards zero for the integer type and keeps the value for
  the float types; a batch of two integers and a batch with the float 0.5.
\<close>

definition truncating :: "np_dtype \<Rightarrow> real \<Rightarrow> real" where
  "truncating dt v =
     (if dt = Int64 then (if 0 \<le> v then of_int \<lfloor>v\<rfloor> else of_int \<lceil>v\<rceil>) else v)"

definition two_ints :: "real batch" where
  "two_ints = \<lparr>tshape = [], bdtype = Int64, items = [1, 2]\<rparr>"

definition one_half :: "real batch" where
  "one_half = \<lparr>tshape = [], bdtype = Float64, items = [1 / 2]\<rparr>"


text \<open>2 x 2 arrays in either order, and a conversion that changes no value.\<close>

definition exact :: "np_dtype \<Rightarrow> real \<Rightarrow> real" where
  "exact dt v = v"

definition row_major_2x2 :: "np_dtype \<Rightarrow> real list list \<Rightarrow> ndarray" where
  "row_major_2x2 dt rows = fresh_C 2 2 dt (\<lambda>i j. rows ! i ! j)"

definition col_major_2x2 :: "np_dtype \<Rightarrow> real list list \<Rightarrow> ndarray" where
  "col_major_2x2 dt rows = fresh_F 2 2 dt (\<lambda>i j. rows ! i ! j)"


section \<open>Properties\<close>

subsection \<open>The encoders without local solves\<close>

lemma length_row_times: "length (row_times x B) = nc B"
  by (simp add: row_times_def)

text \<open>
  C7 (as the code has it). \<open>FeatureEncoder.train\<close> guards the delegation with
  \<open>if self.trainer is not None\<close>: without a trainer it returns normally, raises
  nothing, and leaves the encoder, its dictionary included, as it was.
\<close>

theorem train_without_trainer_is_noop:
  "trainer self = None \<Longrightarrow> FeatureEncoder_train self incoming_patches = Inr self"
  by (simp add: FeatureEncoder_train_def)

theorem train_without_trainer_is_noop_witness:
  "trainer \<lparr>trainer = None :: (mat \<Rightarrow> pyerror + dict \<times> unit) option,
            dictionary = Some (DMat \<lparr>nr = 1, nc = 1, el = [[2]]\<rparr>), especs = no_specs\<rparr> = None
   \<and> FeatureEncoder_train
        \<lparr>trainer = None :: (mat \<Rightarrow> pyerror + dict \<times> unit) option,
         dictionary = Some (DMat \<lparr>nr = 1, nc = 1, el = [[2]]\<rparr>), especs = no_specs\<rparr>
        \<lparr>nr = 1, nc = 1, el = [[5]]\<rparr>
     = Inr \<lparr>trainer = None, dictionary = Some (DMat \<lparr>nr = 1, nc = 1, el = [[2]]\<rparr>),
            especs = no_specs\<rparr>"
  using train_without_trainer_is_noop
    [of "\<lparr>trainer = None :: (mat \<Rightarrow> pyerror + dict \<times> unit) option,
          dictionary = Some (DMat \<lparr>nr = 1, nc = 1, el = [[2]]\<rparr>), especs = no_specs\<rparr>"
        "\<lparr>nr = 1, nc = 1, el = [[5]]\<rparr>"]
  by simp

text \<open>
  C7 as stated fails: training an encoder that has no trainer is not an error. On this
  encoder and this one-patch batch the call returns normally.
\<close>

theorem train_without_trainer_no_error:
  "\<not> isl (FeatureEncoder_train
        \<lparr>trainer = None :: (mat \<Rightarrow> pyerror + dict \<times> unit) option,
         dictionary = None, especs = no_specs\<rparr>
        \<lparr>nr = 1, nc = 1, el = [[5]]\<rparr>)"
  by (simp add: FeatureEncoder_train_def)

text \<open>
  C8. Two-side mode (the \<open>'twoside'\<close> key absent, True, or any other truthy value), a
  trained dictionary D with N = \<open>nr D\<close> rows, threshold \<open>a \<ge> 0\<close> and an input whose last
  axis matches the columns of D: \<open>process\<close> returns; the last axis of the output is 2N;
  each output row is the clipped \<open>v - a\<close> followed by the clipped \<open>-v - a\<close>, v the
  projection of the input row; and of the two entries at j and N + j at most one is
  nonzero.
\<close>

theorem threshold_twoside_width_and_pairs:
  assumes D: "dictionary self = Some (DMat D)"
    and two: "truthy (case spec_twoside (especs self) of None \<Rightarrow> PyBool True | Some v \<Rightarrow> v)"
    and a: "a = (case spec_alpha (especs self) of None \<Rightarrow> 0.25 | Some v \<Rightarrow> v)" "0 \<le> a"
    and shape: "width img = nc D"
  shows "\<exists>out. ThresholdEncoder_process self img = Inr out
           \<and> width out = 2 * nr D
           \<and> lead out = lead img
           \<and> trows out =
               map (\<lambda>x. map (\<lambda>v. max (v - a) 0) (row_times x (mat_T D))
                        @ map (\<lambda>v. max (- v - a) 0) (row_times x (mat_T D))) (trows img)
           \<and> (\<forall>r \<in> set (trows out). length r = 2 * nr D
                 \<and> (\<forall>j < nr D. r ! j = 0 \<or> r ! (nr D + j) = 0))"
proof -
  let ?B = "mat_T D"
  have B: "nc ?B = nr D" "nr ?B = nc D"
    by (simp_all add: mat_T_def)
  define p where "p = \<lparr>lead = lead img, width = nr D,
                        trows = map (\<lambda>x. row_times x ?B) (trows img)\<rparr>"
  have di: "dot_image img ?B = Inr p"
    using shape B by (simp add: dot_image_def dot_def p_def)
  define out where "out = \<lparr>lead = lead img, width = nr D * 2,
      trows = map (map (\<lambda>v. clip0 (v - a)))
                (map (\<lambda>r. r @ map uminus r) (trows p))\<rparr>"
  have run: "ThresholdEncoder_process self img = Inr out"
    using D two a(1) di
    by (simp add: ThresholdEncoder_process_def out_def p_def Let_def)
  have rows: "trows out =
      map (\<lambda>x. map (\<lambda>v. max (v - a) 0) (row_times x ?B)
               @ map (\<lambda>v. max (- v - a) 0) (row_times x ?B)) (trows img)"
    by (simp add: out_def p_def clip0_def o_def)
  have pairs: "length r = 2 * nr D \<and> (\<forall>j < nr D. r ! j = 0 \<or> r ! (nr D + j) = 0)"
    if "r \<in> set (trows out)" for r
  proof -
    from that rows obtain x where
      r: "r = map (\<lambda>v. max (v - a) 0) (row_times x ?B)
              @ map (\<lambda>v. max (- v - a) 0) (row_times x ?B)"
      by auto
    have len: "length (row_times x ?B) = nr D"
      by (simp add: length_row_times B)
    show ?thesis
    proof (intro conjI allI impI)
      show "length r = 2 * nr D" using len by (simp add: r)
    next
      fix j assume j: "j < nr D"
      have "r ! j = max (row_times x ?B ! j - a) 0"
        using j len by (simp add: r nth_append)
      moreover have "r ! (nr D + j) = max (- (row_times x ?B ! j) - a) 0"
        using j len by (simp add: r nth_append)
      ultimately show "r ! j = 0 \<or> r ! (nr D + j) = 0"
        using a(2) by (simp add: max_def)
    qed
  qed
  show ?thesis
    using run rows pairs by (intro exI [of _ out]) (simp add: out_def)
qed

theorem threshold_twoside_width_and_pairs_witness:
  "dictionary (threshold_encoder (Some (PyBool True))) = Some (DMat unit_dictionary)
   \<and> truthy (case spec_twoside (especs (threshold_encoder (Some (PyBool True)))) of
               None \<Rightarrow> PyBool True | Some v \<Rightarrow> v)
   \<and> (0::real) \<le> 0.25
   \<and> width (one_pixel 2) = nc unit_dictionary
   \<and> (\<exists>out. ThresholdEncoder_process (threshold_encoder (Some (PyBool True))) (one_pixel 2)
                = Inr out
           \<and> width out = 2 * nr unit_dictionary
           \<and> (\<forall>r \<in> set (trows out). length r = 2 * nr unit_dictionary
                 \<and> (\<forall>j < nr unit_dictionary. r ! j = 0 \<or> r ! (nr unit_dictionary + j) = 0)))"
proof -
  let ?enc = "threshold_encoder (Some (PyBool True))"
  have h1: "dictionary ?enc = Some (DMat unit_dictionary)"
    by (simp add: threshold_encoder_def)
  have h2: "truthy (case spec_twoside (especs ?enc) of None \<Rightarrow> PyBool True | Some v \<Rightarrow> v)"
    by (simp add: threshold_encoder_def no_specs_def)
  have h3: "(0.25::real) = (case spec_alpha (especs ?enc) of None \<Rightarrow> 0.25 | Some v \<Rightarrow> v)"
    by (simp add: threshold_encoder_def no_specs_def)
  have h4: "(0::real) \<le> 0.25" by simp
  have h5: "width (one_pixel 2) = nc unit_dictionary"
    by (simp add: one_pixel_def unit_dictionary_def)
  from threshold_twoside_width_and_pairs [OF h1 h2 h3 h4 h5]
  show ?thesis using h1 h2 h4 h5 by blast
qed

text \<open>
  C9 fails on the code. With \<open>'twoside': 'abs'\<close> the first test,
  \<open>if self.specs.get('twoside', True)\<close>, already succeeds, because a non-empty string is
  true; the \<open>elif ... == 'abs'\<close> branch is never reached. For the projection -1 and the
  default threshold the output is the two-side pair [0, 0.75] of width 2, not the
  single-side [0.75] of width 1.
\<close>

theorem threshold_abs_mode_takes_twoside_branch:
  "ThresholdEncoder_process (threshold_encoder (Some (PyStr ''abs''))) (one_pixel (- 1))
     = Inr \<lparr>lead = [1], width = 2, trows = [[0, 0.75]]\<rparr>"
  by (simp add: ThresholdEncoder_process_def threshold_encoder_def one_pixel_def
      unit_dictionary_def no_specs_def dot_image_def dot_def mat_T_def row_times_def
      clip0_def)

text \<open>
  C1 fails on the code. \<open>output[:, idx] = 1\<close> sets, in every row, all the columns that
  are the nearest centroid of some row. The two points lie on the two centroids, so
  their nearest centroids are 0 and 1, and both output rows become [1, 1]; the one-hot
  rows would be [1, 0] and [0, 1].
\<close>

theorem vq_rows_not_one_hot:
  "VQEncoder_process vq_encoder two_points
     = Inr \<lparr>lead = [2], width = 2, trows = [[1, 1], [1, 1]]\<rparr>
   \<and> map (\<lambda>i. one_hot 2 i) [0, 1] = [[1, 0], [0, 1]]"
  by (simp add: VQEncoder_process_def vq_encoder_def two_points_def two_centroids_def
      euclidean_distances_def argmin_axis1_def set_columns_def one_hot_def Let_def
      numeral_2_eq_2)

subsection \<open>LLC: linear algebra behind the normalisation\<close>

text \<open>
  For weights w, \<open>w\<^sup>T (Z Z\<^sup>T) w\<close> is the squared norm of \<open>Z\<^sup>T w\<close>.
\<close>

lemma gram_quadratic:
  fixes Z :: "nat \<Rightarrow> nat \<Rightarrow> real" and w :: "nat \<Rightarrow> real"
  shows "(\<Sum>a<K. w a * (\<Sum>b<K. (\<Sum>t<d. Z a t * Z b t) * w b))
       = (\<Sum>t<d. (\<Sum>a<K. w a * Z a t)\<^sup>2)"
proof -
  have "(\<Sum>t<d. (\<Sum>a<K. w a * Z a t)\<^sup>2)
      = (\<Sum>t<d. \<Sum>a<K. \<Sum>b<K. (w a * Z a t) * (w b * Z b t))"
    by (simp add: power2_eq_square sum_product)
  also have "\<dots> = (\<Sum>a<K. \<Sum>t<d. \<Sum>b<K. (w a * Z a t) * (w b * Z b t))"
    by (rule sum.swap)
  also have "\<dots> = (\<Sum>a<K. \<Sum>b<K. \<Sum>t<d. (w a * Z a t) * (w b * Z b t))"
    by (rule sum.cong [OF refl]) (rule sum.swap)
  also have "\<dots> = (\<Sum>a<K. w a * (\<Sum>b<K. (\<Sum>t<d. Z a t * Z b t) * w b))"
    by (simp add: sum_distrib_left sum_distrib_right mult_ac)
  finally show ?thesis by simp
qed

lemma regularised_gram_solution_sum_nonzero:
  fixes Z :: "nat \<Rightarrow> nat \<Rightarrow> real" and w :: "nat \<Rightarrow> real"
  assumes K: "0 < K" and c: "0 \<le> c"
    and sol: "\<And>a. a < K \<Longrightarrow> (\<Sum>b<K. (\<Sum>t<d. Z a t * Z b t) * w b) + c * w a = 1"
  shows "(\<Sum>a<K. w a) \<noteq> 0"
proof
  assume S: "(\<Sum>a<K. w a) = 0"
  have "(\<Sum>a<K. w a * ((\<Sum>b<K. (\<Sum>t<d. Z a t * Z b t) * w b) + c * w a)) = (\<Sum>a<K. w a)"
    by (rule sum.cong [OF refl]) (simp add: sol)
  then have "(\<Sum>a<K. w a * (\<Sum>b<K. (\<Sum>t<d. Z a t * Z b t) * w b)) + c * (\<Sum>a<K. (w a)\<^sup>2) = 0"
    using S by (simp add: distrib_left sum.distrib sum_distrib_left power2_eq_square mult_ac)
  then have q: "(\<Sum>t<d. (\<Sum>a<K. w a * Z a t)\<^sup>2) + c * (\<Sum>a<K. (w a)\<^sup>2) = 0"
    by (simp add: gram_quadratic)
  have n1: "0 \<le> (\<Sum>t<d. (\<Sum>a<K. w a * Z a t)\<^sup>2)" by (simp add: sum_nonneg)
  have n2: "0 \<le> c * (\<Sum>a<K. (w a)\<^sup>2)" using c by (simp add: sum_nonneg)
  from q n1 n2 have z1: "(\<Sum>t<d. (\<Sum>a<K. w a * Z a t)\<^sup>2) = 0"
    and z2: "c * (\<Sum>a<K. (w a)\<^sup>2) = 0" by linarith+
  from z1 have proj: "\<And>t. t < d \<Longrightarrow> (\<Sum>a<K. w a * Z a t) = 0"
    by (simp add: sum_nonneg_eq_0_iff)
  have "(\<Sum>b<K. (\<Sum>t<d. Z 0 t * Z b t) * w b) = (\<Sum>t<d. Z 0 t * (\<Sum>b<K. w b * Z b t))"
  proof -
    have "(\<Sum>b<K. (\<Sum>t<d. Z 0 t * Z b t) * w b) = (\<Sum>b<K. \<Sum>t<d. Z 0 t * (w b * Z b t))"
      by (simp add: sum_distrib_left sum_distrib_right mult_ac)
    also have "\<dots> = (\<Sum>t<d. \<Sum>b<K. Z 0 t * (w b * Z b t))" by (rule sum.swap)
    finally show ?thesis by (simp add: sum_distrib_left)
  qed
  also have "\<dots> = 0" by (simp add: proj)
  finally have "c * w 0 = 1" using sol [OF K] by simp
  then have c0: "c \<noteq> 0" and w0: "w 0 \<noteq> 0" by auto
  have "(w 0)\<^sup>2 \<le> (\<Sum>a<K. (w a)\<^sup>2)"
    using K by (intro member_le_sum) auto
  moreover have "0 < (w 0)\<^sup>2" using w0 by simp
  ultimately have "0 < (\<Sum>a<K. (w a)\<^sup>2)" by linarith
  with c0 z2 show False by simp
qed

subsection \<open>LLC: scattering the weights\<close>

lemma fold_update_length:
  "length (fold (\<lambda>(j, v) r. r[j := v]) ps row) = length row"
  by (induction ps arbitrary: row) auto

lemma length_scatter: "length (scatter idx vals row) = length row"
  by (simp add: scatter_def fold_update_length)

lemma sum_list_update_real:
  fixes xs :: "real list"
  shows "k < length xs \<Longrightarrow> sum_list (xs[k := x]) = sum_list xs + x - xs ! k"
proof (induction xs arbitrary: k)
  case Nil
  then show ?case by simp
next
  case (Cons a xs)
  then show ?case by (cases k) auto
qed

lemma sum_list_divide_real:
  fixes w :: "real list"
  shows "sum_list (map (\<lambda>v. v / s) w) = sum_list w / s"
  by (induction w) (auto simp: add_divide_distrib)

lemma fold_update_other:
  "j \<notin> fst ` set ps \<Longrightarrow> fold (\<lambda>(j, v) r. r[j := v]) ps row ! j = row ! j"
  by (induction ps arbitrary: row) (auto split: prod.splits)

lemma fold_update_sum:
  fixes row :: "real list"
  assumes "distinct (map fst ps)" "\<forall>j \<in> fst ` set ps. j < length row \<and> row ! j = 0"
  shows "sum_list (fold (\<lambda>(j, v) r. r[j := v]) ps row) = sum_list row + sum_list (map snd ps)"
  using assms
proof (induction ps arbitrary: row)
  case Nil
  then show ?case by simp
next
  case (Cons p ps)
  obtain j v where p: "p = (j, v)" by (cases p)
  from Cons.prems p have j: "j < length row" "row ! j = 0" "j \<notin> fst ` set ps"
    and d: "distinct (map fst ps)" by auto
  have "\<forall>i \<in> fst ` set ps. i < length (row[j := v]) \<and> row[j := v] ! i = 0"
    using Cons.prems j p by (auto simp: nth_list_update)
  from Cons.IH [OF d this] have
    "sum_list (fold (\<lambda>(j, v) r. r[j := v]) ps (row[j := v])) = sum_list (row[j := v]) + sum_list (map snd ps)" .
  moreover have "sum_list (row[j := v]) = sum_list row + v"
    using j by (simp add: sum_list_update_real)
  ultimately show ?case by (simp add: p)
qed

lemma scatter_other: "j \<notin> set idx \<Longrightarrow> scatter idx vals row ! j = row ! j"
  unfolding scatter_def by (rule fold_update_other) (auto dest: set_zip_leftD)

lemma scatter_sum:
  fixes vals :: "real list"
  assumes "distinct idx" "set idx \<subseteq> {..<n}" "length vals = length idx"
  shows "sum_list (scatter idx vals (replicate n 0)) = sum_list vals"
proof -
  have "sum_list (fold (\<lambda>(j, v) r. r[j := v]) (zip idx vals) (replicate n (0::real)))
      = sum_list (replicate n (0::real)) + sum_list (map snd (zip idx vals))"
    using assms by (intro fold_update_sum) (auto dest: set_zip_leftD)
  then show ?thesis using assms by (simp add: scatter_def sum_list_replicate)
qed

lemma scatter_nonzeros:
  fixes vals :: "real list"
  assumes "length idx = K"
  shows "length (filter (\<lambda>v. v \<noteq> 0) (scatter idx vals (replicate n 0))) \<le> K"
proof -
  let ?row = "scatter idx vals (replicate n 0)"
  have "{i. i < length ?row \<and> ?row ! i \<noteq> 0} \<subseteq> set idx"
  proof
    fix i assume "i \<in> {i. i < length ?row \<and> ?row ! i \<noteq> 0}"
    then have i: "i < n" "?row ! i \<noteq> 0" by (simp_all add: length_scatter)
    show "i \<in> set idx"
    proof (rule ccontr)
      assume "i \<notin> set idx"
      then have "?row ! i = replicate n 0 ! i" by (rule scatter_other)
      with i show False by simp
    qed
  qed
  then have "card {i. i < length ?row \<and> ?row ! i \<noteq> 0} \<le> card (set idx)"
    by (intro card_mono) auto
  also have "\<dots> \<le> K" using assms card_length by blast
  finally show ?thesis by (simp add: length_filter_conv_card)
qed

lemma fold_update_map:
  "fold (\<lambda>(j, v) r. r[j := v]) (map (\<lambda>(j, v). (j, f v)) ps) (map f row)
     = map f (fold (\<lambda>(j, v) r. r[j := v]) ps row)"
  by (induction ps arbitrary: row) (auto simp: map_update [symmetric])

lemma scatter_map: "scatter idx (map f vs) (map f row) = map f (scatter idx vs row)"
proof -
  have "zip idx (map f vs) = map (\<lambda>(j, v). (j, f v)) (zip idx vs)"
    by (simp add: zip_map2)
  then show ?thesis by (simp add: scatter_def fold_update_map)
qed

lemma foldl_np_add_Fin: "foldl np_add (Fin a) (map Fin xs) = Fin (a + sum_list xs)"
  by (induction xs arbitrary: a) (simp_all add: add.assoc)

lemma np_sum_Fin: "np_sum (map Fin xs) = Fin (sum_list xs)"
  by (simp add: np_sum_def foldl_np_add_Fin)

lemma collect_rows_Inr: "collect_rows rs = Inr vs \<Longrightarrow> rs = map Inr vs"
proof (induction rs arbitrary: vs)
  case Nil
  then show ?case by auto
next
  case (Cons a rs)
  then show ?case by (cases a) (auto split: sum.splits)
qed

lemma collect_rows_Inl: "collect_rows rs = Inl e \<Longrightarrow> Inl e \<in> set rs"
proof (induction rs)
  case Nil
  then show ?case by simp
next
  case (Cons a rs)
  then show ?case by (cases a) (auto split: sum.splits)
qed

lemma gram_entry:
  assumes "length (el Z) = nr Z" "a < nr Z" "b < nr Z"
  shows "row_times (el Z ! a) (mat_T Z) ! b = (\<Sum>t<nc Z. el Z ! a ! t * el Z ! b ! t)"
  using assms
  by (simp add: row_times_def mat_T_def interv_sum_list_conv_sum_set_nat atLeast0LessThan)

lemma add_diag_entry:
  assumes "a < nr C" "a < length (el C ! a)" 
  shows "el (add_diag t C) ! a ! b = el C ! a ! b + (if a = b then t else 0)"
  using assms by (simp add: add_diag_def nth_list_update)

lemma sum_diag_split:
  fixes G :: "nat \<Rightarrow> real"
  assumes "a < K"
  shows "(\<Sum>b<K. (G b + (if a = b then c else 0)) * w b) = (\<Sum>b<K. G b * w b) + c * w a"
proof -
  have "(\<Sum>b<K. (G b + (if a = b then c else 0)) * w b)
      = (\<Sum>b<K. G b * w b + (if a = b then c * w b else 0))"
    by (rule sum.cong [OF refl]) (simp add: distrib_right)
  also have "\<dots> = (\<Sum>b<K. G b * w b) + (\<Sum>b<K. if a = b then c * w b else 0)"
    by (rule sum.distrib)
  also have "(\<Sum>b<K. if a = b then c * w b else 0) = c * w a"
    using assms by simp
  finally show ?thesis .
qed

lemma llc_weights_sum_nonzero:
  assumes sound: "solve_sound solve" and K: "0 < K" and r: "0 \<le> r"
    and Z: "length (el Z) = K" "nr Z = K"
    and C: "llc_C r Z = Inr C"
    and w: "solve C (replicate K 1) = Inr w"
  shows "length w = K" and "sum_list w \<noteq> 0"
proof -
  define C0 where "C0 = \<lparr>nr = K, nc = K, el = map (\<lambda>y. row_times y (mat_T Z)) (el Z)\<rparr>"
  define c where "c = r * trace C0"
  define G where "G a b = (\<Sum>t<nc Z. el Z ! a ! t * el Z ! b ! t)" for a b
  have dotZ: "dot Z (mat_T Z) = Inr C0"
    by (simp add: dot_def mat_T_def C0_def Z)
  with C have C_def: "C = add_diag c C0"
    by (simp add: llc_C_def c_def)
  have C0_entry: "el C0 ! a ! b = G a b" if "a < K" "b < K" for a b
    using that gram_entry [of Z a b] Z by (simp add: C0_def G_def)
  have C0_len: "length (el C0 ! a) = K" if "a < K" for a
    using that Z by (simp add: C0_def length_row_times mat_T_def)
  have tr: "trace C0 = (\<Sum>a<K. G a a)"
    by (simp add: trace_def C0_def interv_sum_list_conv_sum_set_nat atLeast0LessThan
        C0_entry [unfolded C0_def, simplified])
  have "0 \<le> trace C0"
    unfolding tr G_def by (intro sum_nonneg) simp
  with r have c: "0 \<le> c" by (simp add: c_def)
  have C_entry: "el C ! a ! b = G a b + (if a = b then c else 0)" if "a < K" "b < K" for a b
    using that add_diag_entry [of a C0 c b] C0_len [of a] C0_entry [of a b]
    by (simp add: C_def C0_def)
  from sound w show wlen: "length w = K"
    unfolding solve_sound_def by fastforce
  from sound w have eqs: "\<And>i. i < K \<Longrightarrow> (\<Sum>j<K. el C ! i ! j * w ! j) = 1"
    unfolding solve_sound_def by fastforce
  have sys: "(\<Sum>b<K. (\<Sum>t<nc Z. el Z ! a ! t * el Z ! b ! t) * w ! b) + c * w ! a = 1"
    if "a < K" for a
  proof -
    have "(\<Sum>j<K. el C ! a ! j * w ! j) = (\<Sum>b<K. (G a b + (if a = b then c else 0)) * w ! b)"
      by (rule sum.cong [OF refl]) (simp add: C_entry that)
    also have "\<dots> = (\<Sum>b<K. G a b * w ! b) + c * w ! a"
      by (rule sum_diag_split [OF that])
    finally show ?thesis using eqs [OF that] by (simp add: G_def)
  qed
  have "(\<Sum>a<K. w ! a) \<noteq> 0"
    by (rule regularised_gram_solution_sum_nonzero [OF K c sys])
  moreover have "sum_list w = (\<Sum>a<K. w ! a)"
    using wlen by (simp add: sum_list_sum_nth atLeast0LessThan)
  ultimately show "sum_list w \<noteq> 0" by simp
qed

lemma llc_Z_shape:
  assumes "llc_Z K D idx x = Inr Z"
  shows "length (el Z) = K" and "nr Z = K" and "length idx = K \<or> length idx = 1"
  using assms by (auto simp: llc_Z_def Let_def split: if_splits)

lemma llc_row_result:
  assumes sound: "solve_sound solve" and K: "0 < K" and r: "0 \<le> r"
    and idx: "distinct idx" "set idx \<subseteq> {..<nr D}"
    and ok: "llc_row solve K r D idx x = Inr row"
  shows "llc_row_good K (nr D) idx row"
proof -
  from ok obtain Z where Z: "llc_Z K D idx x = Inr Z"
    by (cases "llc_Z K D idx x") (auto simp: llc_row_def)
  with ok obtain C where C: "llc_C r Z = Inr C"
    by (cases "llc_C r Z") (auto simp: llc_row_def)
  with ok Z obtain w where w: "solve C (replicate K 1) = Inr w"
    by (cases "solve C (replicate K 1)") (auto simp: llc_row_def)
  note shape = llc_Z_shape [OF Z]
  note weights = llc_weights_sum_nonzero [OF sound K r shape(1,2) C w]
  define vs where "vs = map (\<lambda>v. v / sum_list w) w"
  have vals: "map (\<lambda>v. np_divide v (sum_list w)) w = map Fin vs"
    using weights(2) by (simp add: vs_def np_divide_def)
  have res: "assign_at idx (map Fin vs) (replicate (nr D) (Fin 0)) = Inr row"
    using ok Z C w by (simp add: llc_row_def vals)
  have len: "length idx = K"
  proof (rule ccontr)
    assume ne: "length idx \<noteq> K"
    with shape(3) have "length idx = 1" by simp
    with ne weights(1) have "assign_at idx (map Fin vs) (replicate (nr D) (Fin 0)) = Inl ValueError"
      by (simp add: assign_at_def vs_def)
    with res show False by simp
  qed
  define reals where "reals = scatter idx vs (replicate (nr D) 0)"
  have "row = scatter idx (map Fin vs) (map Fin (replicate (nr D) 0))"
    using res len weights(1) by (simp add: assign_at_def vs_def)
  then have row: "row = map Fin reals"
    by (simp only: scatter_map reals_def)
  have "sum_list reals = sum_list vs"
    unfolding reals_def using idx len weights(1) by (intro scatter_sum) (simp_all add: vs_def)
  then have one: "sum_list reals = 1"
    using weights(2) by (simp add: vs_def sum_list_divide_real)
  have zeros: "reals ! j = 0" if "j \<notin> set idx" "j < nr D" for j
    using that by (simp add: reals_def scatter_other)
  have lenr: "length reals = nr D"
    by (simp add: reals_def length_scatter)
  have nz: "length (filter (\<lambda>v. v \<noteq> 0) reals) \<le> K"
    unfolding reals_def by (rule scatter_nonzeros [OF len])
  have "filter (\<lambda>v. v \<noteq> Fin 0) (map Fin reals) = map Fin (filter (\<lambda>v. v \<noteq> 0) reals)"
    by (simp add: filter_map o_def)
  then have nz': "length (filter (\<lambda>v. v \<noteq> Fin 0) row) \<le> K"
    using nz by (simp add: row)
  have out: "\<forall>j<nr D. row ! j \<noteq> Fin 0 \<longrightarrow> j \<in> set idx"
    using zeros lenr by (auto simp: row)
  show ?thesis
    unfolding llc_row_good_def
    using len lenr nz' out one by (auto simp: row np_sum_Fin)
qed

lemma llc_distance_rows:
  assumes "llc_distance dnorm D X = Inr distance"
  shows "length (el distance) = length (el X)"
    and "\<forall>row \<in> set (el distance). length row = nr D"
  using assms
  by (auto simp: llc_distance_def dot_def add_rowvec_def mat_neg_def mat_T_def
      length_row_times split: if_splits sum.splits)

lemma llc_encode_result:
  assumes perm: "nearest_perm nearest" and sound: "solve_sound solve"
    and K: "0 < K" and r: "0 \<le> r"
    and X: "X = \<lparr>nr = prod_list (lead img), nc = width img, el = trows img\<rparr>"
    and ok: "llc_encode nearest solve K r dnorm (Some (DMat D)) img = Inr out"
  shows "\<exists>distance.
           llc_distance dnorm D X = Inr distance
         \<and> flead out = lead img \<and> fwidth out = nr D
         \<and> length (frows out) = length (trows img)
         \<and> (\<forall>i<length (frows out).
               llc_row_good K (nr D) (llc_IDX nearest K distance ! i) (frows out ! i))"
proof -
  let ?f = "\<lambda>(idx, x). llc_row solve K r D idx x"
  have enc: "llc_encode nearest solve K r dnorm (Some (DMat D)) img =
     (case llc_distance dnorm D X of
        Inl e \<Rightarrow> Inl e
      | Inr distance \<Rightarrow>
          (case collect_rows (map ?f (zip (llc_IDX nearest K distance) (el X))) of
             Inl e \<Rightarrow> Inl e
           | Inr coeff \<Rightarrow> Inr \<lparr>flead = lead img, fwidth = nr D, frows = coeff\<rparr>))"
    unfolding llc_encode_def Let_def X by simp
  from ok enc obtain distance where dist: "llc_distance dnorm D X = Inr distance"
    by (cases "llc_distance dnorm D X") auto
  let ?IDX = "llc_IDX nearest K distance"
  let ?rs = "map ?f (zip ?IDX (el X))"
  from ok enc dist obtain coeff where coeff: "collect_rows ?rs = Inr coeff"
    and out: "out = \<lparr>flead = lead img, fwidth = nr D, frows = coeff\<rparr>"
    by (cases "collect_rows ?rs") auto
  have lenI: "length ?IDX = length (el X)"
    using llc_distance_rows(1) [OF dist] by (simp add: llc_IDX_def)
  have idx_ok: "distinct (?IDX ! i) \<and> set (?IDX ! i) \<subseteq> {..<nr D}" if "i < length (el X)" for i
  proof -
    from that have i: "i < length (el distance)"
      using llc_distance_rows(1) [OF dist] by simp
    then have "length (el distance ! i) = nr D"
      using llc_distance_rows(2) [OF dist] by simp
    moreover have "distinct (nearest K (el distance ! i))"
      "set (nearest K (el distance ! i)) = {..<length (el distance ! i)}"
      using perm by (simp_all add: nearest_perm_def)
    ultimately show ?thesis
      using i set_take_subset [of K "nearest K (el distance ! i)"]
      by (auto simp: llc_IDX_def)
  qed
  have lenrs: "length ?rs = length (el X)" using lenI by simp
  from coeff have rs: "?rs = map Inr coeff" by (rule collect_rows_Inr)
  then have lenc: "length coeff = length (el X)"
    using lenrs by (metis length_map)
  have good: "llc_row_good K (nr D) (?IDX ! i) (coeff ! i)" if "i < length coeff" for i
  proof -
    from that lenc have i: "i < length (el X)" by simp
    have "?rs ! i = Inr (coeff ! i)" using rs that by simp
    then have "llc_row solve K r D (?IDX ! i) (el X ! i) = Inr (coeff ! i)"
      using i lenI by simp
    from llc_row_result [OF sound K r conjunct1 [OF idx_ok [OF i]] conjunct2 [OF idx_ok [OF i]] this]
    show ?thesis .
  qed
  from dist lenc good show ?thesis by (simp add: out X)
qed

lemma np_argsort_perm: "nearest_perm np_argsort"
proof -
  have "distinct (np_argsort K row) \<and> set (np_argsort K row) = {..<length row}" for K row
  proof -
    let ?zs = "zip row [0..<length row]"
    have inj: "inj_on snd (set ?zs)"
      by (auto simp: inj_on_def in_set_zip)
    have "distinct ?zs" by (simp add: distinct_zipI2)
    then have "distinct (map snd (sort_key fst ?zs))"
      using inj by (simp add: distinct_map)
    moreover have "set (map snd (sort_key fst ?zs)) = snd ` set ?zs" by simp
    moreover have "snd ` set ?zs = {..<length row}"
      by (metis atLeast_upt length_upt map_snd_zip minus_nat.diff_0 set_map)
    ultimately show ?thesis by (simp add: np_argsort_def)
  qed
  then show ?thesis by (simp add: nearest_perm_def)
qed

lemma cramer2:
  fixes p q s t y z :: real
  assumes "p * t - q * s \<noteq> 0"
  shows "p * ((y * t - q * z) / (p * t - q * s)) + q * ((p * z - y * s) / (p * t - q * s)) = y"
    and "s * ((y * t - q * z) / (p * t - q * s)) + t * ((p * z - y * s) / (p * t - q * s)) = z"
proof -
  define d where "d = p * t - q * s"
  have d: "d \<noteq> 0" using assms by (simp add: d_def)
  have "p * ((y * t - q * z) / d) + q * ((p * z - y * s) / d)
      = (p * (y * t - q * z) + q * (p * z - y * s)) / d"
    by (simp add: add_divide_distrib)
  also have "p * (y * t - q * z) + q * (p * z - y * s) = y * d"
    by (simp add: d_def algebra_simps)
  finally show "p * ((y * t - q * z) / (p * t - q * s)) + q * ((p * z - y * s) / (p * t - q * s)) = y"
    using d by (simp add: d_def)
  have "s * ((y * t - q * z) / d) + t * ((p * z - y * s) / d)
      = (s * (y * t - q * z) + t * (p * z - y * s)) / d"
    by (simp add: add_divide_distrib)
  also have "s * (y * t - q * z) + t * (p * z - y * s) = z * d"
    by (simp add: d_def algebra_simps)
  finally show "s * ((y * t - q * z) / (p * t - q * s)) + t * ((p * z - y * s) / (p * t - q * s)) = z"
    using d by (simp add: d_def)
qed

lemma solve_small_sound: "solve_sound solve_small"
  unfolding solve_sound_def
proof (intro allI impI)
  fix C b w assume s: "solve_small C b = Inr w"
  then consider (empty) "b = []" "w = []"
    | (two) p q s' t y z where "el C = [[p, q], [s', t]]" "b = [y, z]" "p * t - q * s' \<noteq> 0"
        "w = [(y * t - q * z) / (p * t - q * s'), (p * z - y * s') / (p * t - q * s')]"
    by (auto simp: solve_small_def split: list.splits if_splits)
  then show "length w = length b \<and> (\<forall>i<length b. (\<Sum>j<length b. el C ! i ! j * w ! j) = b ! i)"
  proof cases
    case empty
    then show ?thesis by simp
  next
    case two
    have two_set: "{..<2::nat} = {0, 1}" by auto
    show ?thesis
    proof (intro conjI allI impI)
      show "length w = length b" by (simp add: two)
    next
      fix i assume "i < length b"
      then have "i = 0 \<or> i = 1" by (auto simp: two)
      then show "(\<Sum>j<length b. el C ! i ! j * w ! j) = b ! i"
        using cramer2 [OF two(3), of y z] by (auto simp: two two_set)
    qed
  qed
qed

lemmas llc_eval =
  LLCEncoder_process_def llc_encode_def llc_distance_def llc_IDX_def llc_row_def
  llc_Z_def llc_C_def assign_at_def np_divide_def
  half_sq_norms_def dot_def mat_neg_def mat_T_def row_times_def add_rowvec_def
  add_diag_def trace_def scatter_def np_argsort_def solve_small_def no_specs_def Let_def
  numeral_2_eq_2 numeral_3_eq_3

lemma origin_process:
  "LLCEncoder_process np_argsort solve_small llc_encoder origin
     = (llc_encoder\<lparr>especs := (especs llc_encoder)\<lparr>spec_D_norm := Some [25/2, 1/2, 2]\<rparr>\<rparr>,
        Inr \<lparr>flead = [1], fwidth = 3, frows = [[Fin 0, Fin (7/11), Fin (4/11)]]\<rparr>)"
  by (simp add: llc_eval llc_encoder_def origin_def three_atoms_def)

text \<open>
  C4 (as amended). Let the two library routines keep their contracts, let the
  dictionary be a matrix D, \<open>K \<ge> 1\<close> and \<open>reg \<ge> 0\<close> (the default 1e-4 included), and
  let \<open>process\<close> raise nothing, that is, every local solve succeeds. Then the result
  has one coefficient row per input row; each row has \<open>nr D\<close> entries, is zero
  outside the K indices selected for that row, has at most K nonzero entries, holds
  only finite numbers (\<open>w.sum()\<close> is never zero), and its entries sum to 1.
\<close>

theorem llc_coefficients_sparse_and_normalised:
  assumes perm: "nearest_perm nearest" and sound: "solve_sound solve"
    and D: "dictionary self = Some (DMat D)"
    and K: "K = (case spec_k (especs self) of None \<Rightarrow> 5 | Some v \<Rightarrow> v)" "0 < K"
    and r: "r = (case spec_reg (especs self) of None \<Rightarrow> 0.0001 | Some v \<Rightarrow> v)" "0 \<le> r"
    and dn: "dnorm = (case spec_D_norm (especs self) of None \<Rightarrow> half_sq_norms D | Some v \<Rightarrow> v)"
    and X: "X = \<lparr>nr = prod_list (lead img), nc = width img, el = trows img\<rparr>"
    and noraise: "\<And>e. snd (LLCEncoder_process nearest solve self img) \<noteq> Inl e"
  shows "\<exists>out distance.
           snd (LLCEncoder_process nearest solve self img) = Inr out
         \<and> llc_distance dnorm D X = Inr distance
         \<and> flead out = lead img \<and> fwidth out = nr D
         \<and> length (frows out) = length (trows img)
         \<and> (\<forall>i<length (frows out).
               llc_row_good K (nr D) (llc_IDX nearest K distance ! i) (frows out ! i))"
proof -
  have run: "snd (LLCEncoder_process nearest solve self img)
      = llc_encode nearest solve K r dnorm (Some (DMat D)) img"
    using D K(1) r(1) dn
    by (simp add: LLCEncoder_process_def Let_def split: option.splits)
  with noraise obtain out where
    out: "llc_encode nearest solve K r dnorm (Some (DMat D)) img = Inr out"
    by (cases "llc_encode nearest solve K r dnorm (Some (DMat D)) img") auto
  from llc_encode_result [OF perm sound K(2) r(2) X out] run out
  show ?thesis by auto
qed

theorem llc_coefficients_sparse_and_normalised_witness:
  "nearest_perm np_argsort \<and> solve_sound solve_small
   \<and> dictionary llc_encoder = Some (DMat three_atoms)
   \<and> (0::nat) < 2 \<and> (0::real) \<le> 1
   \<and> snd (LLCEncoder_process np_argsort solve_small llc_encoder origin)
       = Inr \<lparr>flead = [1], fwidth = 3, frows = [[Fin 0, Fin (7/11), Fin (4/11)]]\<rparr>
   \<and> (\<exists>out distance.
           snd (LLCEncoder_process np_argsort solve_small llc_encoder origin) = Inr out
         \<and> llc_distance (half_sq_norms three_atoms) three_atoms
              \<lparr>nr = prod_list (lead origin), nc = width origin, el = trows origin\<rparr>
             = Inr distance
         \<and> flead out = lead origin \<and> fwidth out = nr three_atoms
         \<and> length (frows out) = length (trows origin)
         \<and> (\<forall>i<length (frows out).
               llc_row_good 2 (nr three_atoms) (llc_IDX np_argsort 2 distance ! i)
                 (frows out ! i)))"
proof -
  have h1: "dictionary llc_encoder = Some (DMat three_atoms)"
    by (simp add: llc_encoder_def)
  have h2: "(2::nat) = (case spec_k (especs llc_encoder) of None \<Rightarrow> 5 | Some v \<Rightarrow> v)"
    by (simp add: llc_encoder_def no_specs_def)
  have h3: "(0::nat) < 2" by simp
  have h4: "(1::real) = (case spec_reg (especs llc_encoder) of None \<Rightarrow> 0.0001 | Some v \<Rightarrow> v)"
    by (simp add: llc_encoder_def no_specs_def)
  have h5: "(0::real) \<le> 1" by simp
  have h6: "half_sq_norms three_atoms =
      (case spec_D_norm (especs llc_encoder) of None \<Rightarrow> half_sq_norms three_atoms | Some v \<Rightarrow> v)"
    by (simp add: llc_encoder_def no_specs_def)
  have run: "snd (LLCEncoder_process np_argsort solve_small llc_encoder origin)
      = Inr \<lparr>flead = [1], fwidth = 3, frows = [[Fin 0, Fin (7/11), Fin (4/11)]]\<rparr>"
    by (simp add: origin_process)
  then have h7: "\<And>e. snd (LLCEncoder_process np_argsort solve_small llc_encoder origin) \<noteq> Inl e"
    by simp
  note inst = llc_coefficients_sparse_and_normalised
    [OF np_argsort_perm solve_small_sound h1 h2 h3 h4 h5 h6 refl h7]
  show ?thesis
    by (intro conjI np_argsort_perm solve_small_sound h1 h3 h5 run inst)
qed

text \<open>
  C4 as stated fails in two ways. With the regulariser -1/2 and the two orthogonal
  atoms, K = 2, the local solve succeeds with the weights -2/3 and 2/3; their sum is
  zero and the coefficient row is (-inf, inf), whose sum is nan. With K = 0 nothing is
  selected and the coefficient row is all zero, with sum 0.
\<close>

theorem llc_rows_that_do_not_sum_to_one:
  "snd (LLCEncoder_process np_argsort solve_small negative_reg_encoder plane_origin)
     = Inr \<lparr>flead = [1], fwidth = 2, frows = [[NegInf, PosInf]]\<rparr>
   \<and> np_sum [NegInf, PosInf] = NaN
   \<and> snd (LLCEncoder_process np_argsort solve_small no_neighbour_encoder origin)
     = Inr \<lparr>flead = [1], fwidth = 3, frows = [[Fin 0, Fin 0, Fin 0]]\<rparr>
   \<and> np_sum [Fin 0, Fin 0, Fin 0] = Fin 0"
  by (simp add: llc_eval negative_reg_encoder_def plane_origin_def two_atoms_def
      no_neighbour_encoder_def origin_def three_atoms_def np_sum_def)

subsection \<open>LLC: the cached norms\<close>

lemma process_with_cached_norms:
  assumes "spec_D_norm (especs self) = Some v"
  shows "LLCEncoder_process nearest solve self img =
     (self, llc_encode nearest solve
        (case spec_k (especs self) of None \<Rightarrow> 5 | Some v \<Rightarrow> v)
        (case spec_reg (especs self) of None \<Rightarrow> 0.0001 | Some v \<Rightarrow> v)
        v (dictionary self) img)"
  using assms by (simp add: LLCEncoder_process_def Let_def)

lemma train_keeps_specs:
  "FeatureEncoder_train self patches = Inr self' \<Longrightarrow> especs self' = especs self"
  by (auto simp: FeatureEncoder_train_def split: option.splits sum.splits)

lemma llc_apply_keeps_cached_norms:
  assumes "spec_D_norm (especs self) = Some v"
  shows "spec_D_norm (especs (llc_apply nearest solve self opn)) = Some v"
proof (cases opn)
  case (Process img)
  then show ?thesis using assms by (simp add: process_with_cached_norms)
next
  case (Train patches)
  then show ?thesis using assms
    by (auto simp: train_keeps_specs split: sum.splits)
qed

lemma foldl_llc_apply_keeps_cached_norms:
  "spec_D_norm (especs self) = Some v \<Longrightarrow>
   spec_D_norm (especs (foldl (llc_apply nearest solve) self ops)) = Some v"
  by (induction ops arbitrary: self) (simp_all add: llc_apply_keeps_cached_norms)


lemma retrained_state:
  "foldl (llc_apply np_argsort solve_small)
      (fst (LLCEncoder_process np_argsort solve_small retrainable_llc_encoder origin))
      [Train \<lparr>nr = 1, nc = 1, el = [[0]]\<rparr>]
   = retrainable_llc_encoder
       \<lparr>dictionary := Some (DMat swapped_atoms),
        especs := (especs retrainable_llc_encoder)\<lparr>spec_D_norm := Some [25/2, 1/2, 2]\<rparr>\<rparr>"
  by (simp add: LLCEncoder_process_def retrainable_llc_encoder_def llc_encoder_def
      no_specs_def Let_def FeatureEncoder_train_def half_sq_norms_def three_atoms_def)

lemma retrained_process:
  "snd (LLCEncoder_process np_argsort solve_small
        (retrainable_llc_encoder
          \<lparr>dictionary := Some (DMat swapped_atoms),
           especs := (especs retrainable_llc_encoder)\<lparr>spec_D_norm := Some [25/2, 1/2, 2]\<rparr>\<rparr>)
        origin)
   = Inr \<lparr>flead = [1], fwidth = 3, frows = [[Fin 0, Fin (23/67), Fin (44/67)]]\<rparr>"
  by (simp add: llc_eval retrainable_llc_encoder_def llc_encoder_def origin_def swapped_atoms_def)


text \<open>
  C10. On an LLC encoder with a dictionary D and no \<open>'D_norm'\<close> key yet, the first
  call of \<open>process\<close> stores half the squared norm of every row of D under
  \<open>'D_norm'\<close>. After any later sequence of \<open>process\<close> and \<open>train\<close> calls the key
  still holds these norms of D, a further \<open>train\<close> does not touch it either, and
  every later \<open>process\<close> leaves the encoder as it is and encodes with these norms and
  whatever dictionary is current then.
\<close>

theorem llc_D_norm_cached_once:
  assumes D: "dictionary self = Some (DMat D)"
    and fresh: "spec_D_norm (especs self) = None"
    and s1: "self1 = fst (LLCEncoder_process nearest solve self img)"
    and s2: "self2 = foldl (llc_apply nearest solve) self1 ops"
  shows "spec_D_norm (especs self1) = Some (half_sq_norms D)
       \<and> spec_D_norm (especs self2) = Some (half_sq_norms D)
       \<and> (\<forall>patches self3. FeatureEncoder_train self2 patches = Inr self3
             \<longrightarrow> spec_D_norm (especs self3) = Some (half_sq_norms D))
       \<and> (\<forall>img2. LLCEncoder_process nearest solve self2 img2 =
            (self2, llc_encode nearest solve
               (case spec_k (especs self2) of None \<Rightarrow> 5 | Some v \<Rightarrow> v)
               (case spec_reg (especs self2) of None \<Rightarrow> 0.0001 | Some v \<Rightarrow> v)
               (half_sq_norms D) (dictionary self2) img2))"
proof -
  have c1: "spec_D_norm (especs self1) = Some (half_sq_norms D)"
    using D fresh by (simp add: s1 LLCEncoder_process_def Let_def)
  then have c2: "spec_D_norm (especs self2) = Some (half_sq_norms D)"
    unfolding s2 by (rule foldl_llc_apply_keeps_cached_norms)
  show ?thesis
    using c1 c2 by (auto simp: process_with_cached_norms train_keeps_specs)
qed


theorem llc_D_norm_cached_once_witness:
  "dictionary retrainable_llc_encoder = Some (DMat three_atoms)
   \<and> spec_D_norm (especs retrainable_llc_encoder) = None
   \<and> dictionary (foldl (llc_apply np_argsort solve_small)
        (fst (LLCEncoder_process np_argsort solve_small retrainable_llc_encoder origin))
        [Train \<lparr>nr = 1, nc = 1, el = [[0]]\<rparr>]) = Some (DMat swapped_atoms)
   \<and> spec_D_norm (especs (foldl (llc_apply np_argsort solve_small)
        (fst (LLCEncoder_process np_argsort solve_small retrainable_llc_encoder origin))
        [Train \<lparr>nr = 1, nc = 1, el = [[0]]\<rparr>])) = Some (half_sq_norms three_atoms)
   \<and> half_sq_norms three_atoms = [25/2, 1/2, 2]
   \<and> half_sq_norms swapped_atoms = [1/2, 25/2, 2]
   \<and> snd (LLCEncoder_process np_argsort solve_small
        (foldl (llc_apply np_argsort solve_small)
          (fst (LLCEncoder_process np_argsort solve_small retrainable_llc_encoder origin))
          [Train \<lparr>nr = 1, nc = 1, el = [[0]]\<rparr>]) origin)
       = Inr \<lparr>flead = [1], fwidth = 3, frows = [[Fin 0, Fin (23/67), Fin (44/67)]]\<rparr>"
proof -
  have h1: "dictionary retrainable_llc_encoder = Some (DMat three_atoms)"
    by (simp add: retrainable_llc_encoder_def llc_encoder_def)
  have h2: "spec_D_norm (especs retrainable_llc_encoder) = None"
    by (simp add: retrainable_llc_encoder_def llc_encoder_def no_specs_def)
  have n1: "half_sq_norms three_atoms = [25/2, 1/2, 2]"
    by (simp add: half_sq_norms_def three_atoms_def)
  have n2: "half_sq_norms swapped_atoms = [1/2, 25/2, 2]"
    by (simp add: half_sq_norms_def swapped_atoms_def)
  from llc_D_norm_cached_once [OF h1 h2 refl refl, of np_argsort solve_small origin
      "[Train \<lparr>nr = 1, nc = 1, el = [[0]]\<rparr>]"]
  have "spec_D_norm (especs (foldl (llc_apply np_argsort solve_small)
        (fst (LLCEncoder_process np_argsort solve_small retrainable_llc_encoder origin))
        [Train \<lparr>nr = 1, nc = 1, el = [[0]]\<rparr>])) = Some (half_sq_norms three_atoms)"
    by blast
  note cached = this [unfolded retrained_state]
  show ?thesis
    unfolding retrained_state
    using h1 h2 n1 n2 retrained_process cached by simp
qed

subsection \<open>The training protocol of a layer\<close>

lemma train_loop_indices:
  assumes "train_loop i cs p = (tr, cs', r)" "cs \<noteq> []"
  shows "\<exists>n. 1 \<le> n \<and> n \<le> 1 + length (takeWhile (\<lambda>c. kind c \<noteq> KPooler) (tl cs))
           \<and> map fst (train_calls tr) = [i..<i + n]
           \<and> (r = None \<longrightarrow> n = 1 + length (takeWhile (\<lambda>c. kind c \<noteq> KPooler) (tl cs)))"
  using assms
proof (induction cs arbitrary: i p tr cs' r)
  case Nil
  then show ?case by simp
next
  case (Cons c rest)
  show ?case
  proof (cases "component_train c p")
    case (Inl e)
    with Cons.prems have "tr = [TrainCall i p]" "r = Some e" by auto
    then show ?thesis by (intro exI [of _ 1]) simp
  next
    case (Inr trained)
    show ?thesis
    proof (cases "rest = [] \<or> kind (hd rest) = KPooler")
      case True
      with Inr Cons.prems have tr: "tr = [TrainCall i p]" by auto
      from True have "takeWhile (\<lambda>c. kind c \<noteq> KPooler) rest = []"
        by (cases rest) auto
      with tr show ?thesis by (intro exI [of _ 1]) simp
    next
      case False
      then obtain d rest2 where rest: "rest = d # rest2" "kind d \<noteq> KPooler"
        by (cases rest) auto
      show ?thesis
      proof (cases "process_fn trained p")
        case (Inl e)
        with Inr False Cons.prems have "tr = [TrainCall i p, ProcessCall i p]" "r = Some e"
          by auto
        then show ?thesis by (intro exI [of _ 1]) simp
      next
        case p': (Inr p')
        obtain tr2 rest' r2 where rec: "train_loop (i + 1) rest p' = (tr2, rest', r2)"
          by (cases "train_loop (i + 1) rest p'") auto
        with Inr False p' Cons.prems
        have tr: "tr = TrainCall i p # ProcessCall i p # tr2" and r: "r = r2" by auto
        from Cons.IH [OF rec] False obtain n where
          n: "1 \<le> n" "n \<le> 1 + length (takeWhile (\<lambda>c. kind c \<noteq> KPooler) (tl rest))"
             "map fst (train_calls tr2) = [i + 1..<i + 1 + n]"
             "r2 = None \<longrightarrow> n = 1 + length (takeWhile (\<lambda>c. kind c \<noteq> KPooler) (tl rest))"
          by auto
        have tw: "length (takeWhile (\<lambda>c. kind c \<noteq> KPooler) rest)
            = 1 + length (takeWhile (\<lambda>c. kind c \<noteq> KPooler) (tl rest))"
          using rest by simp
        have "[i..<i + (n + 1)] = i # [i + 1..<i + 1 + n]"
          by (simp add: upt_conv_Cons)
        with n tw tr r show ?thesis
          by (intro exI [of _ "n + 1"]) simp
      qed
    qed
  qed
qed

lemma train_loop_length:
  "train_loop i cs p = (tr, cs', r) \<Longrightarrow> length cs' = length cs"
proof (induction cs arbitrary: i p tr cs' r)
  case Nil
  then show ?case by simp
next
  case (Cons c rest)
  then show ?case
    by (auto split: sum.splits if_splits prod.splits)
qed

lemma train_loop_process_calls:
  assumes "train_loop i cs p = (tr, cs', r)" "(j, q) \<in> set (process_calls tr)"
  shows "i \<le> j \<and> j + 1 < i + length cs \<and> kind (cs ! (j + 1 - i)) \<noteq> KPooler
         \<and> (j, q) \<in> set (train_calls tr)"
  using assms
proof (induction cs arbitrary: i p tr cs' r)
  case Nil
  then show ?case by simp
next
  case (Cons c rest)
  show ?case
  proof (cases "component_train c p")
    case (Inl e)
    with Cons.prems show ?thesis by auto
  next
    case (Inr trained)
    show ?thesis
    proof (cases "rest = [] \<or> kind (hd rest) = KPooler")
      case True
      with Inr Cons.prems show ?thesis by auto
    next
      case False
      then have rest: "rest \<noteq> []" "kind (rest ! 0) \<noteq> KPooler"
        by (auto simp: hd_conv_nth)
      show ?thesis
      proof (cases "process_fn trained p")
        case (Inl e)
        with Inr False Cons.prems have "tr = [TrainCall i p, ProcessCall i p]" by auto
        with Cons.prems(2) rest show ?thesis by auto
      next
        case p': (Inr p')
        obtain tr2 rest' r2 where rec: "train_loop (i + 1) rest p' = (tr2, rest', r2)"
          by (cases "train_loop (i + 1) rest p'") auto
        with Inr False p' Cons.prems
        have tr: "tr = TrainCall i p # ProcessCall i p # tr2" by auto
        from Cons.prems(2) tr consider "j = i" "q = p" | "(j, q) \<in> set (process_calls tr2)"
          by auto
        then show ?thesis
        proof cases
          case 1
          with tr rest show ?thesis by auto
        next
          case 2
          from Cons.IH [OF rec 2]
          have ih: "i + 1 \<le> j" "j + 1 < i + 1 + length rest"
            "kind (rest ! (j + 1 - (i + 1))) \<noteq> KPooler" "(j, q) \<in> set (train_calls tr2)"
            by auto
          from ih(1) have "(c # rest) ! (j + 1 - i) = rest ! (j + 1 - (i + 1))"
            by (simp add: nth_Cons')
          with ih tr show ?thesis by auto
        qed
      qed
    qed
  qed
qed

lemma train_loop_flow:
  assumes "train_loop i cs p = (tr, cs', r)" "cs \<noteq> []"
  shows "(\<exists>more. train_calls tr = (i, p) # more)
       \<and> (\<forall>j q. (Suc j, q) \<in> set (train_calls tr) \<and> i \<le> j \<longrightarrow>
             (\<exists>q0. (j, q0) \<in> set (process_calls tr) \<and> process_fn (cs' ! (j - i)) q0 = Inr q))"
  using assms
proof (induction cs arbitrary: i p tr cs' r)
  case Nil
  then show ?case by simp
next
  case (Cons c rest)
  show ?case
  proof (cases "component_train c p")
    case (Inl e)
    with Cons.prems show ?thesis by auto
  next
    case (Inr trained)
    show ?thesis
    proof (cases "rest = [] \<or> kind (hd rest) = KPooler")
      case True
      with Inr Cons.prems show ?thesis by auto
    next
      case False
      then have rest: "rest \<noteq> []" by auto
      show ?thesis
      proof (cases "process_fn trained p")
        case (Inl e)
        with Inr False Cons.prems show ?thesis by auto
      next
        case p': (Inr p')
        obtain tr2 rest' r2 where rec: "train_loop (i + 1) rest p' = (tr2, rest', r2)"
          by (cases "train_loop (i + 1) rest p'") auto
        with Inr False p' Cons.prems
        have tr: "tr = TrainCall i p # ProcessCall i p # tr2" and cs': "cs' = trained # rest'"
          by auto
        from Cons.IH [OF rec rest] obtain more where
          first: "train_calls tr2 = (i + 1, p') # more"
          and flow: "\<And>j q. (Suc j, q) \<in> set (train_calls tr2) \<Longrightarrow> i + 1 \<le> j \<Longrightarrow>
             \<exists>q0. (j, q0) \<in> set (process_calls tr2) \<and> process_fn (rest' ! (j - (i + 1))) q0 = Inr q"
          by blast
        from train_loop_indices [OF rec rest] obtain n where
          idx: "map fst (train_calls tr2) = [i + 1..<i + 1 + n]" by blast
        then have dist: "distinct (map fst (train_calls tr2))" by simp
        have step: "\<exists>q0. (j, q0) \<in> set (process_calls tr) \<and> process_fn (cs' ! (j - i)) q0 = Inr q"
          if mem: "(Suc j, q) \<in> set (train_calls tr)" and ij: "i \<le> j" for j q
        proof -
          from mem ij tr have mem2: "(Suc j, q) \<in> set (train_calls tr2)" by auto
          show ?thesis
          proof (cases "j = i")
            case True
            have "(i + 1, p') \<in> set (train_calls tr2)" by (simp add: first)
            with mem2 True dist have "q = p'"
              by (metis Suc_eq_plus1 eq_key_imp_eq_value)
            with True p' tr cs' show ?thesis by auto
          next
            case False
            with ij have "i + 1 \<le> j" by simp
            from flow [OF mem2 this] obtain q0 where
              "(j, q0) \<in> set (process_calls tr2)" "process_fn (rest' ! (j - (i + 1))) q0 = Inr q"
              by blast
            moreover from \<open>i + 1 \<le> j\<close> have "cs' ! (j - i) = rest' ! (j - (i + 1))"
              by (simp add: cs' nth_Cons')
            ultimately show ?thesis using tr by auto
          qed
        qed
        from tr step show ?thesis by auto
      qed
    qed
  qed
qed

lemma trainees_nth:
  assumes "1 \<le> j" "j \<le> length (trainees self)"
  shows "j < length self \<and> kind (self ! j) \<noteq> KPooler"
proof -
  let ?P = "\<lambda>c. kind c \<noteq> KPooler"
  from assms have j: "j - 1 < length (takeWhile ?P (tl self))"
    by (simp add: trainees_def)
  then have "takeWhile ?P (tl self) ! (j - 1) = tl self ! (j - 1)"
    by (rule takeWhile_nth)
  moreover have "?P (takeWhile ?P (tl self) ! (j - 1))"
  proof -
    have "takeWhile ?P (tl self) ! (j - 1) \<in> set (takeWhile ?P (tl self))"
      using j by (rule nth_mem)
    then show ?thesis by (rule set_takeWhileD [THEN conjunct2])
  qed
  moreover have lt: "j - 1 < length (tl self)"
    using j length_takeWhile_le [of ?P "tl self"] by (rule less_le_trans)
  moreover have "tl self ! (j - 1) = self ! j"
    using lt assms(1) by (simp add: nth_tl)
  moreover have "j < length self"
    using lt assms(1) by simp
  ultimately show ?thesis by simp
qed

lemma convlayer_train_nothing_to_train:
  assumes nonempty: "self \<noteq> []"
    and run: "ConvLayer_train self sampled = (tr, self', r)"
    and ext: "kind (self ! 0) = KExtractor"
    and stop: "\<not> (\<exists>patches. sampled = Inr patches
                  \<and> \<not> (length self = 1 \<or> kind (self ! 1) = KPooler))"
  shows "tr = []" and "r = None \<and> \<not> isl sampled \<longrightarrow> length (trainees self) = 0"
proof -
  show "tr = []"
    using nonempty run ext stop
    by (auto simp: ConvLayer_train_def split: sum.splits if_splits)
  show "r = None \<and> \<not> isl sampled \<longrightarrow> length (trainees self) = 0"
  proof
    assume "r = None \<and> \<not> isl sampled"
    then obtain patches where "sampled = Inr patches" by (cases sampled) auto
    with stop have "length self = 1 \<or> kind (self ! 1) = KPooler" by simp
    then show "length (trainees self) = 0"
      using nonempty by (cases self; cases "tl self") (auto simp: trainees_def)
  qed
qed

lemma convlayer_train_extractor:
  assumes nonempty: "self \<noteq> []"
    and run: "ConvLayer_train self sampled = (tr, self', r)"
    and ext: "kind (self ! 0) = KExtractor"
  shows "(\<exists>n\<le>length (trainees self). map fst (train_calls tr) = [1..<1 + n]
           \<and> (r = None \<and> \<not> isl sampled \<longrightarrow> n = length (trainees self)))
    \<and> (\<forall>i \<in> fst ` set (train_calls tr). \<forall>j. 1 \<le> j \<and> j \<le> i \<longrightarrow>
           j < length self \<and> kind (self ! j) \<noteq> KPooler)
    \<and> (\<forall>(j, q) \<in> set (process_calls tr).
           (j, q) \<in> set (train_calls tr) \<and> j + 1 < length self
           \<and> kind (self ! (j + 1)) \<noteq> KPooler)
    \<and> (\<forall>patches. sampled = Inr patches \<and> tr \<noteq> [] \<longrightarrow> hd (train_calls tr) = (1, patches))
    \<and> (\<forall>j q. (Suc j, q) \<in> set (train_calls tr) \<and> 1 \<le> j \<longrightarrow>
           (\<exists>q0. (j, q0) \<in> set (process_calls tr) \<and> process_fn (self' ! j) q0 = Inr q))"
proof (cases "\<exists>patches. sampled = Inr patches \<and> \<not> (length self = 1 \<or> kind (self ! 1) = KPooler)")
  case False
  note idle = convlayer_train_nothing_to_train [OF nonempty run ext False]
  have c1: "\<exists>n\<le>length (trainees self). map fst (train_calls tr) = [1..<1 + n]
           \<and> (r = None \<and> \<not> isl sampled \<longrightarrow> n = length (trainees self))"
    by (intro exI [of _ 0]) (use idle in simp)
  have c2: "\<forall>i \<in> fst ` set (train_calls tr). \<forall>j. 1 \<le> j \<and> j \<le> i \<longrightarrow>
           j < length self \<and> kind (self ! j) \<noteq> KPooler"
    by (simp add: idle(1))
  have c3: "\<forall>(j, q) \<in> set (process_calls tr).
           (j, q) \<in> set (train_calls tr) \<and> j + 1 < length self
           \<and> kind (self ! (j + 1)) \<noteq> KPooler"
    by (simp add: idle(1))
  have c4: "\<forall>patches. sampled = Inr patches \<and> tr \<noteq> [] \<longrightarrow> hd (train_calls tr) = (1, patches)"
    by (simp add: idle(1))
  have c5: "\<forall>j q. (Suc j, q) \<in> set (train_calls tr) \<and> 1 \<le> j \<longrightarrow>
           (\<exists>q0. (j, q0) \<in> set (process_calls tr) \<and> process_fn (self' ! j) q0 = Inr q)"
    by (simp add: idle(1))
  show ?thesis
    by (rule conjI [OF c1 conjI [OF c2 conjI [OF c3 conjI [OF c4 c5]]]])
next
  case True
  then obtain patches where s: "sampled = Inr patches"
    and len: "length self \<noteq> 1" and k1: "kind (self ! 1) \<noteq> KPooler" by auto
  have "ConvLayer_train self sampled =
      (case train_loop 1 (tl self) patches of (tr, rest, r) \<Rightarrow> (tr, hd self # rest, r))"
    using nonempty ext s len k1 by (simp add: ConvLayer_train_def)
  with run obtain rest where rest: "train_loop 1 (tl self) patches = (tr, rest, r)"
    and self': "self' = hd self # rest"
    by (cases "train_loop 1 (tl self) patches") auto
  from nonempty len have tl: "tl self \<noteq> []" by (cases self) auto
  have tw: "length (trainees self)
      = 1 + length (takeWhile (\<lambda>c. kind c \<noteq> KPooler) (tl (tl self)))"
    using tl k1 nonempty by (cases self; cases "tl self") (auto simp: trainees_def)
  from train_loop_indices [OF rest tl] obtain n where
    n0: "1 \<le> n" "n \<le> 1 + length (takeWhile (\<lambda>c. kind c \<noteq> KPooler) (tl (tl self)))"
       "map fst (train_calls tr) = [1..<1 + n]"
       "r = None \<longrightarrow> n = 1 + length (takeWhile (\<lambda>c. kind c \<noteq> KPooler) (tl (tl self)))"
    by blast
  have n: "n \<le> length (trainees self)" "r = None \<longrightarrow> n = length (trainees self)"
    using n0(2,4) tw by simp_all
  have c1: "\<exists>n\<le>length (trainees self). map fst (train_calls tr) = [1..<1 + n]
         \<and> (r = None \<and> \<not> isl sampled \<longrightarrow> n = length (trainees self))"
    by (intro exI [of _ n]) (use n n0(3) in simp)
  have c2: "\<forall>i \<in> fst ` set (train_calls tr). \<forall>j. 1 \<le> j \<and> j \<le> i \<longrightarrow>
         j < length self \<and> kind (self ! j) \<noteq> KPooler"
  proof (intro ballI allI impI)
    fix i j assume i: "i \<in> fst ` set (train_calls tr)" and j: "1 \<le> j \<and> j \<le> i"
    from i have "i \<in> set (map fst (train_calls tr))" by simp
    then have "i < 1 + n" unfolding n0(3) by auto
    with j n(1) have "j \<le> length (trainees self)" by simp
    with j show "j < length self \<and> kind (self ! j) \<noteq> KPooler"
      by (intro trainees_nth) simp_all
  qed
  have c3: "\<forall>(j, q) \<in> set (process_calls tr).
         (j, q) \<in> set (train_calls tr) \<and> j + 1 < length self
         \<and> kind (self ! (j + 1)) \<noteq> KPooler"
  proof (intro ballI, clarify)
    fix j q assume "(j, q) \<in> set (process_calls tr)"
    from train_loop_process_calls [OF rest this]
    have h: "1 \<le> j" "j + 1 < 1 + length (tl self)" "kind (tl self ! (j + 1 - 1)) \<noteq> KPooler"
      "(j, q) \<in> set (train_calls tr)" by simp_all
    from h(2) have "tl self ! j = self ! (j + 1)" by (simp add: nth_tl)
    with h show "(j, q) \<in> set (train_calls tr) \<and> j + 1 < length self
         \<and> kind (self ! (j + 1)) \<noteq> KPooler" by simp
  qed
  from train_loop_flow [OF rest tl] obtain more where
    first: "train_calls tr = (1, patches) # more"
    and flow: "\<And>j q. (Suc j, q) \<in> set (train_calls tr) \<Longrightarrow> 1 \<le> j \<Longrightarrow>
           \<exists>q0. (j, q0) \<in> set (process_calls tr) \<and> process_fn (rest ! (j - 1)) q0 = Inr q"
    by blast
  have c4: "\<forall>patches. sampled = Inr patches \<and> tr \<noteq> [] \<longrightarrow> hd (train_calls tr) = (1, patches)"
    using first s by simp
  have c5: "\<forall>j q. (Suc j, q) \<in> set (train_calls tr) \<and> 1 \<le> j \<longrightarrow>
         (\<exists>q0. (j, q0) \<in> set (process_calls tr) \<and> process_fn (self' ! j) q0 = Inr q)"
  proof (intro allI impI)
    fix j q assume a: "(Suc j, q) \<in> set (train_calls tr) \<and> 1 \<le> j"
    then have "self' ! j = rest ! (j - 1)" by (simp add: self' nth_Cons')
    moreover from a flow [of j q]
    have "\<exists>q0. (j, q0) \<in> set (process_calls tr) \<and> process_fn (rest ! (j - 1)) q0 = Inr q"
      by simp
    ultimately show "\<exists>q0. (j, q0) \<in> set (process_calls tr) \<and> process_fn (self' ! j) q0 = Inr q"
      by simp
  qed
  show ?thesis
    by (rule conjI [OF c1 conjI [OF c2 conjI [OF c3 conjI [OF c4 c5]]]])
qed

lemma five_stage_run:
  "ConvLayer_train five_stage_layer (Inr a_batch) =
     ([TrainCall 1 a_batch, ProcessCall 1 a_batch, TrainCall 2 (doubled a_batch)],
      [stage KExtractor, trained_stage KNormalizer, trained_stage KEncoder, stage KPooler,
       stage KEncoder],
      None)"
  by (simp add: ConvLayer_train_def five_stage_layer_def stage_def trained_stage_def
      component_train_def)

text \<open>
  C6. For a non-empty layer: if the first component is not an extractor, \<open>train\<close>
  raises ValueError and calls nothing. Otherwise the \<open>train\<close> calls go to the
  components 1, 2, ... in list order, a prefix of the components before the first
  pooler, and all of them when nothing raises; no call goes to a pooler or to a
  component behind one. \<open>process\<close> is called on a component only after its
  \<open>train\<close>, and only when a next component exists and is not a pooler. The first
  trainee gets the sampled patches, each later one the output of its predecessor's
  \<open>process\<close>.
\<close>

theorem convlayer_train_protocol:
  assumes nonempty: "self \<noteq> []"
    and run: "ConvLayer_train self sampled = (tr, self', r)"
  shows "(kind (self ! 0) \<noteq> KExtractor \<longrightarrow> r = Some ValueError \<and> tr = [] \<and> self' = self)
       \<and> (kind (self ! 0) = KExtractor \<longrightarrow>
            (\<exists>n\<le>length (trainees self). map fst (train_calls tr) = [1..<1 + n]
           \<and> (r = None \<and> \<not> isl sampled \<longrightarrow> n = length (trainees self)))
    \<and> (\<forall>i \<in> fst ` set (train_calls tr). \<forall>j. 1 \<le> j \<and> j \<le> i \<longrightarrow>
           j < length self \<and> kind (self ! j) \<noteq> KPooler)
    \<and> (\<forall>(j, q) \<in> set (process_calls tr).
           (j, q) \<in> set (train_calls tr) \<and> j + 1 < length self
           \<and> kind (self ! (j + 1)) \<noteq> KPooler)
    \<and> (\<forall>patches. sampled = Inr patches \<and> tr \<noteq> [] \<longrightarrow> hd (train_calls tr) = (1, patches))
    \<and> (\<forall>j q. (Suc j, q) \<in> set (train_calls tr) \<and> 1 \<le> j \<longrightarrow>
           (\<exists>q0. (j, q0) \<in> set (process_calls tr) \<and> process_fn (self' ! j) q0 = Inr q)))"
proof (rule conjI; rule impI)
  assume "kind (self ! 0) \<noteq> KExtractor"
  with nonempty run show "r = Some ValueError \<and> tr = [] \<and> self' = self"
    by (simp add: ConvLayer_train_def)
next
  assume ext: "kind (self ! 0) = KExtractor"
  show "(\<exists>n\<le>length (trainees self). map fst (train_calls tr) = [1..<1 + n]
           \<and> (r = None \<and> \<not> isl sampled \<longrightarrow> n = length (trainees self)))
    \<and> (\<forall>i \<in> fst ` set (train_calls tr). \<forall>j. 1 \<le> j \<and> j \<le> i \<longrightarrow>
           j < length self \<and> kind (self ! j) \<noteq> KPooler)
    \<and> (\<forall>(j, q) \<in> set (process_calls tr).
           (j, q) \<in> set (train_calls tr) \<and> j + 1 < length self
           \<and> kind (self ! (j + 1)) \<noteq> KPooler)
    \<and> (\<forall>patches. sampled = Inr patches \<and> tr \<noteq> [] \<longrightarrow> hd (train_calls tr) = (1, patches))
    \<and> (\<forall>j q. (Suc j, q) \<in> set (train_calls tr) \<and> 1 \<le> j \<longrightarrow>
           (\<exists>q0. (j, q0) \<in> set (process_calls tr) \<and> process_fn (self' ! j) q0 = Inr q))"
    by (rule convlayer_train_extractor [OF nonempty run ext])
qed

theorem convlayer_train_protocol_witness:
  "five_stage_layer \<noteq> []
   \<and> ConvLayer_train five_stage_layer (Inr a_batch) =
     ([TrainCall 1 a_batch, ProcessCall 1 a_batch, TrainCall 2 (doubled a_batch)],
      [stage KExtractor, trained_stage KNormalizer, trained_stage KEncoder, stage KPooler,
       stage KEncoder],
      None)
   \<and> kind (five_stage_layer ! 0) = KExtractor
   \<and> (\<exists>n. n \<le> length (trainees five_stage_layer)
          \<and> map fst (train_calls [TrainCall 1 a_batch, ProcessCall 1 a_batch, TrainCall 2 (doubled a_batch)]) = [1..<1 + n]
          \<and> n = length (trainees five_stage_layer))"
proof -
  have h1: "five_stage_layer \<noteq> []" by (simp add: five_stage_layer_def)
  have k: "kind (five_stage_layer ! 0) = KExtractor"
    by (simp add: five_stage_layer_def stage_def)
  note inst = convlayer_train_protocol [OF h1 five_stage_run]
  note g1 = inst [THEN conjunct2, THEN mp, OF k, THEN conjunct1]
  have g: "\<exists>n. n \<le> length (trainees five_stage_layer)
          \<and> map fst (train_calls [TrainCall 1 a_batch, ProcessCall 1 a_batch, TrainCall 2 (doubled a_batch)]) = [1..<1 + n]
          \<and> n = length (trainees five_stage_layer)"
    using g1 by auto
  show ?thesis by (intro conjI h1 five_stage_run k g)
qed

subsection \<open>The reservoir sampler\<close>

lemma fold_assign_length:
  "length (fold (\<lambda>(j, v) r. r[j := Some v]) ps rows) = length rows"
  by (induction ps arbitrary: rows) auto

lemma fold_assign_nth:
  "k < length rows \<Longrightarrow>
   fold (\<lambda>(j, v) r. r[j := Some v]) ps rows ! k = rows ! k
   \<or> (\<exists>v \<in> snd ` set ps. fold (\<lambda>(j, v) r. r[j := Some v]) ps rows ! k = Some v)"
proof (induction ps arbitrary: rows)
  case Nil
  then show ?case by simp
next
  case (Cons p ps)
  obtain j v where p: "p = (j, v)" by (cases p)
  from Cons.prems have k: "k < length (rows[j := Some v])" by simp
  from Cons.IH [OF k] show ?case
  proof
    assume "fold (\<lambda>(j, v) r. r[j := Some v]) ps (rows[j := Some v]) ! k = rows[j := Some v] ! k"
    then show ?thesis
      using Cons.prems by (cases "k = j") (auto simp: p)
  next
    assume "\<exists>w\<in>snd ` set ps. fold (\<lambda>(j, v) r. r[j := Some v]) ps (rows[j := Some v]) ! k = Some w"
    then show ?thesis by (auto simp: p)
  qed
qed

lemma chosen_subset:
  "set (map fst (filter snd (zip xs bs))) \<subseteq> set xs"
  by (auto dest: set_zip_leftD)

lemma none_chosen:
  "filter snd (zip xs (map (\<lambda>i. np_rand g i < 0) is)) = []"
proof -
  have "\<not> np_rand g i < 0" for i
    by (simp add: np_rand_def not_less)
  then show ?thesis
    by (auto simp: filter_empty_conv dest!: set_zip_rightD)
qed

lemma consider_full:
  assumes inv: "filled c sh dt xs s" and full: "c \<le> length xs"
    and sh: "tshape feature = sh" and bdt: "bdtype feature = dt"
  shows "\<exists>s'. ReservoirSampler_consider cast g s feature = Inr s'
              \<and> filled c sh dt (xs @ items feature) s'"
proof -
  from inv obtain d where s: "num_samples s = c" "current s = length xs"
    and d: "data s = Some d" "rshape d = sh" "rdtype d = dt" "length (rrows d) = c"
    and old: "\<And>k. k < c \<Longrightarrow> \<exists>y\<in>set xs. rrows d ! k = Some y"
    and pre: "length xs \<le> c \<longrightarrow> take (length xs) (rrows d) = map Some xs"
    using full unfolding filled_def by (auto simp: min_def)
  have prep: "prepare s feature = Inr d"
    using d sh by (simp add: prepare_def)
  define chosen where "chosen = map fst (filter snd (zip (items feature)
      (map (\<lambda>i. np_rand g i < real (num_samples s) / real (current s + 1 + i))
         [0..<length (items feature)])))"
  define idxs where "idxs = map (\<lambda>i. randint g i mod c) [0..<length chosen]"
  define rows' where "rows' = assign_rows idxs (stored cast (rdtype d) (bdtype feature) chosen)
      (rrows d)"
  have same: "stored cast (rdtype d) (bdtype feature) chosen = chosen"
    using d bdt by (simp add: stored_def)
  have c0: "chosen = []" if "c = 0"
    using that s(1) unfolding chosen_def by (simp add: none_chosen)
  define s' where "s' = s\<lparr>data := Some (d\<lparr>rrows := rows'\<rparr>),
                          current := current s + length (items feature)\<rparr>"
  have ri: "np_randint g (num_samples s) (length chosen) = Inr idxs"
    using c0 s by (auto simp: np_randint_def idxs_def)
  have ge: "num_samples s \<le> current s"
    using s full by simp
  have run: "ReservoirSampler_consider cast g s feature = Inr s'"
    apply (subst ReservoirSampler_consider.simps)
    using prep ge ri unfolding s'_def rows'_def idxs_def chosen_def
    by (simp add: Let_def)
  have len: "length rows' = c"
    by (simp add: rows'_def assign_rows_def fold_assign_length d)
  have rows'_same: "rows' = assign_rows idxs chosen (rrows d)"
    by (simp add: rows'_def same)
  have sub: "set chosen \<subseteq> set (items feature)"
    unfolding chosen_def by (rule chosen_subset)
  have each: "\<exists>y\<in>set (xs @ items feature). rows' ! k = Some y" if "k < c" for k
  proof -
    from that d have k: "k < length (rrows d)" by simp
    from fold_assign_nth [OF k, of "zip idxs chosen"]
    have "rows' ! k = rrows d ! k \<or> (\<exists>v \<in> snd ` set (zip idxs chosen). rows' ! k = Some v)"
      by (simp add: rows'_same assign_rows_def)
    then show ?thesis
    proof
      assume "rows' ! k = rrows d ! k"
      with old [OF that] show ?thesis by auto
    next
      assume "\<exists>v \<in> snd ` set (zip idxs chosen). rows' ! k = Some v"
      then obtain v where "v \<in> set chosen" "rows' ! k = Some v"
        by (auto dest: set_zip_rightD)
      with sub show ?thesis by auto
    qed
  qed
  have pre': "take (length (xs @ items feature)) rows' = map Some (xs @ items feature)"
    if "length (xs @ items feature) \<le> c"
  proof -
    from that have "length xs + length (items feature) \<le> c" by simp
    with full have "length (items feature) \<le> 0" "length xs = c" by linarith+
    then have e: "items feature = []" "length xs = c" by simp_all
    then have "chosen = []" by (simp add: chosen_def)
    then have "rows' = rrows d" by (simp add: rows'_same assign_rows_def)
    with pre e show ?thesis by simp
  qed
  have "filled c sh dt (xs @ items feature) s'"
    unfolding filled_def
    using s d len each pre' by (auto simp: s'_def)
  with run show ?thesis by blast
qed

lemma consider_filling:
  assumes ns: "num_samples s = c" and cur: "current s = length xs"
    and room: "length xs < c"
    and dat: "case data s of
                None \<Rightarrow> xs = []
              | Some d \<Rightarrow> rshape d = sh \<and> rdtype d = dt \<and> length (rrows d) = c
                   \<and> take (length xs) (rrows d) = map Some xs"
    and sh: "tshape feature = sh" and bdt: "bdtype feature = dt"
  shows "\<exists>s'. ReservoirSampler_consider cast g s feature = Inr s'
              \<and> filled c sh dt (xs @ items feature) s'"
proof -
  obtain d where prep: "prepare s feature = Inr d"
    and d: "rshape d = sh" "rdtype d = dt" "length (rrows d) = c"
    and pre: "take (length xs) (rrows d) = map Some xs"
    using dat ns sh bdt by (cases "data s") (auto simp: prepare_def)
  define n where "n = length xs"
  define count where "count = min (c - n) (length (items feature))"
  define rows' where "rows' = assign_slice n
      (stored cast (rdtype d) (bdtype feature) (take count (items feature))) (rrows d)"
  have same: "stored cast (rdtype d) (bdtype feature) (take count (items feature))
      = take count (items feature)"
    using d bdt by (simp add: stored_def)
  define s' where "s' = s\<lparr>data := Some (d\<lparr>rrows := rows'\<rparr>), current := n + count\<rparr>"
  have lt: "\<not> num_samples s \<le> current s" using ns cur room by simp
  have cnt: "count \<le> length (items feature)" "n + count \<le> c"
    using room by (simp_all add: count_def n_def)
  have rows'_eq: "rows' = map Some (xs @ take count (items feature)) @ drop (n + count) (rrows d)"
    using pre cnt by (simp add: rows'_def same assign_slice_def n_def min_absorb2)
  have len': "length rows' = c"
    using cnt d by (simp add: rows'_eq n_def)
  have step: "ReservoirSampler_consider cast g s feature =
      (if count < length (items feature)
       then ReservoirSampler_consider cast g s' (feature\<lparr>items := drop count (items feature)\<rparr>)
       else Inr s')"
    apply (subst ReservoirSampler_consider.simps)
    using prep lt unfolding s'_def rows'_def count_def n_def
    by (simp add: Let_def ns cur)
  have mid: "filled c sh dt (xs @ take count (items feature)) s'"
  proof -
    have l: "length (xs @ take count (items feature)) = n + count"
      using cnt by (simp add: n_def)
    have "take (n + count) rows' = map Some (xs @ take count (items feature))"
      using l by (simp add: rows'_eq)
    moreover have "\<exists>y\<in>set (xs @ take count (items feature)). rows' ! k = Some y"
      if "k < n + count" for k
    proof -
      from that l have kl: "k < length (xs @ take count (items feature))" by simp
      have "rows' ! k = map Some (xs @ take count (items feature)) ! k"
        by (simp only: rows'_eq nth_append length_map kl if_True)
      also have "\<dots> = Some ((xs @ take count (items feature)) ! k)"
        using kl by (rule nth_map)
      finally show ?thesis using nth_mem [OF kl] by blast
    qed
    ultimately show ?thesis
      unfolding filled_def using ns d len' l cnt by (auto simp: s'_def min_def)
  qed
  show ?thesis
  proof (cases "count < length (items feature)")
    case False
    with cnt have "take count (items feature) = items feature" by simp
    with mid step False show ?thesis by simp
  next
    case True
    then have full: "c \<le> length (xs @ take count (items feature))"
      using room by (simp add: count_def n_def)
    from consider_full [OF mid full, of "feature\<lparr>items := drop count (items feature)\<rparr>" cast g]
      sh bdt
    obtain s'' where "ReservoirSampler_consider cast g s'
        (feature\<lparr>items := drop count (items feature)\<rparr>) = Inr s''"
      "filled c sh dt (xs @ take count (items feature) @ drop count (items feature)) s''"
      by auto
    with step True show ?thesis by simp
  qed
qed

lemma consider_step:
  assumes pre: "s = ReservoirSampler_init c \<and> xs = [] \<or> filled c sh dt xs s"
    and sh: "tshape feature = sh" and bdt: "bdtype feature = dt"
  shows "\<exists>s'. ReservoirSampler_consider cast g s feature = Inr s'
              \<and> filled c sh dt (xs @ items feature) s'"
proof (cases "length xs < c")
  case True
  show ?thesis
  proof (rule consider_filling [OF _ _ True _ sh bdt])
    show "num_samples s = c"
      using pre by (auto simp: ReservoirSampler_init_def filled_def)
    show "current s = length xs"
      using pre by (auto simp: ReservoirSampler_init_def filled_def)
    show "case data s of None \<Rightarrow> xs = []
          | Some d \<Rightarrow> rshape d = sh \<and> rdtype d = dt \<and> length (rrows d) = c
               \<and> take (length xs) (rrows d) = map Some xs"
      using pre True by (auto simp: ReservoirSampler_init_def filled_def)
  qed
next
  case False
  then have full: "c \<le> length xs" by simp
  from pre show ?thesis
  proof
    assume inv: "filled c sh dt xs s"
    from consider_full [OF inv full sh bdt] show ?thesis .
  next
    assume fresh: "s = ReservoirSampler_init c \<and> xs = []"
    with full have c0: "c = 0" by simp
    define d where "d = \<lparr>rshape = sh, rdtype = dt, rrows = ([] :: 'a option list)\<rparr>"
    define s' where "s' = s\<lparr>data := Some d, current := length (items feature)\<rparr>"
    have prep: "prepare s feature = Inr d"
      using fresh c0 sh bdt by (simp add: prepare_def ReservoirSampler_init_def d_def)
    have run: "ReservoirSampler_consider cast g s feature = Inr s'"
      apply (subst ReservoirSampler_consider.simps)
      using prep fresh c0
      by (simp add: Let_def ReservoirSampler_init_def none_chosen np_randint_def
          assign_rows_def stored_def s'_def d_def)
    have "filled c sh dt (xs @ items feature) s'"
      using fresh c0 by (simp add: filled_def s'_def d_def ReservoirSampler_init_def)
    with run show ?thesis by blast
  qed
qed

lemma consider_all_filled:
  assumes "filled c sh dt xs s" "\<forall>(g, f) \<in> set calls. tshape f = sh \<and> bdtype f = dt"
  shows "\<exists>s'. consider_all cast s calls = Inr s'
              \<and> filled c sh dt (xs @ concat (map (\<lambda>(g, f). items f) calls)) s'"
  using assms
proof (induction calls arbitrary: s xs)
  case Nil
  then show ?case by simp
next
  case (Cons call calls)
  obtain g f where call: "call = (g, f)" by (cases call)
  from Cons.prems(2) call have sh: "tshape f = sh" and bdt: "bdtype f = dt"
    and rest: "\<forall>(g, f) \<in> set calls. tshape f = sh \<and> bdtype f = dt" by auto
  from consider_step [OF disjI2 [OF Cons.prems(1)] sh bdt, of cast g]
  obtain s1 where s1: "ReservoirSampler_consider cast g s f = Inr s1"
    "filled c sh dt (xs @ items f) s1"
    by blast
  from Cons.IH [OF s1(2) rest]
  obtain s' where "consider_all cast s1 calls = Inr s'"
    "filled c sh dt ((xs @ items f) @ concat (map (\<lambda>(g, f). items f) calls)) s'" by blast
  with s1(1) call show ?case by simp
qed

lemma get_filled:
  assumes "filled c sh dt xs s"
  shows "\<exists>d. ReservoirSampler_get s = Inr (Some d) \<and> rshape d = sh \<and> rdtype d = dt
           \<and> length (rrows d) = min c (length xs)
           \<and> (\<forall>r \<in> set (rrows d). \<exists>y \<in> set xs. r = Some y)
           \<and> (length xs < c \<longrightarrow> rrows d = map Some xs)"
proof -
  from assms obtain d where s: "num_samples s = c" "current s = length xs"
    and d: "data s = Some d" "rshape d = sh" "rdtype d = dt" "length (rrows d) = c"
    and each: "\<And>k. k < min c (length xs) \<Longrightarrow> \<exists>y\<in>set xs. rrows d ! k = Some y"
    and pre: "length xs \<le> c \<Longrightarrow> take (length xs) (rrows d) = map Some xs"
    unfolding filled_def by blast
  show ?thesis
  proof (cases "length xs < c")
    case True
    then have "ReservoirSampler_get s = Inr (Some (d\<lparr>rrows := map Some xs\<rparr>))"
      using s d pre by (simp add: ReservoirSampler_get_def)
    then show ?thesis using True d by (intro exI [of _ "d\<lparr>rrows := map Some xs\<rparr>"]) auto
  next
    case False
    then have g: "ReservoirSampler_get s = Inr (Some d)"
      using s d by (simp add: ReservoirSampler_get_def)
    have "\<exists>y \<in> set xs. r = Some y" if "r \<in> set (rrows d)" for r
    proof -
      from that obtain k where "k < length (rrows d)" "rrows d ! k = r"
        by (auto simp: in_set_conv_nth)
      with each [of k] False d show ?thesis by (auto simp: min_def)
    qed
    with g False d show ?thesis by (intro exI [of _ d]) (auto simp: min_def)
  qed
qed

lemma three_rows_run:
  "consider_all truncating (ReservoirSampler_init 2) [(always_first, three_rows)]
     = Inr \<lparr>num_samples = 2, current = 3,
            data = Some \<lparr>rshape = [], rdtype = Float64, rrows = [Some 30, Some 20]\<rparr>\<rparr>"
  by (simp add: ReservoirSampler_init_def always_first_def three_rows_def prepare_def
      np_randint_def np_rand_def assign_rows_def assign_slice_def stored_def Let_def)

text \<open>
  C3 (as amended). For a sampler of any capacity c and a non-empty sequence of
  \<open>consider\<close> calls whose batches all have the trailing shape sh and the element
  type dt, with xs the rows of all batches in order: no call raises;
  \<open>num_considered\<close> is the number of rows; \<open>get\<close> returns \<open>min c (length xs)\<close>
  rows, each of them a row of xs; and while fewer than c rows have been considered,
  \<open>get\<close> returns exactly xs.
\<close>

theorem reservoir_after_considering:
  assumes calls: "calls \<noteq> []"
    and sh: "\<forall>(g, f) \<in> set calls. tshape f = sh \<and> bdtype f = dt"
    and xs: "xs = concat (map (\<lambda>(g, f). items f) calls)"
  shows "\<exists>s d. consider_all cast (ReservoirSampler_init c) calls = Inr s
           \<and> num_considered s = length xs
           \<and> ReservoirSampler_get s = Inr (Some d)
           \<and> rshape d = sh \<and> rdtype d = dt
           \<and> length (rrows d) = min c (length xs)
           \<and> (\<forall>r \<in> set (rrows d). \<exists>y \<in> set xs. r = Some y)
           \<and> (length xs < c \<longrightarrow> rrows d = map Some xs)"
proof -
  from calls obtain g f rest where cs: "calls = (g, f) # rest"
    by (cases calls) auto
  from sh cs have shf: "tshape f = sh" and dtf: "bdtype f = dt"
    and shr: "\<forall>(g, f) \<in> set rest. tshape f = sh \<and> bdtype f = dt"
    by auto
  have "(ReservoirSampler_init c :: 'a ReservoirSampler) = ReservoirSampler_init c
        \<and> ([] :: 'a list) = []
      \<or> filled c sh dt [] (ReservoirSampler_init c :: 'a ReservoirSampler)"
    by simp
  from consider_step [OF this shf dtf, of cast g]
  obtain s1 where s1: "ReservoirSampler_consider cast g (ReservoirSampler_init c) f = Inr s1"
    "filled c sh dt (items f) s1" by auto
  from consider_all_filled [OF s1(2) shr]
  obtain s where s: "consider_all cast s1 rest = Inr s"
    "filled c sh dt (items f @ concat (map (\<lambda>(g, f). items f) rest)) s" by blast
  have run: "consider_all cast (ReservoirSampler_init c) calls = Inr s"
    using s1(1) s(1) by (simp add: cs)
  have inv: "filled c sh dt xs s" using s(2) by (simp add: xs cs)
  then have n: "num_considered s = length xs"
    by (simp add: filled_def num_considered_def)
  from get_filled [OF inv] run n show ?thesis by blast
qed

theorem reservoir_after_considering_witness:
  "[(always_first, three_rows)] \<noteq> []
   \<and> tshape three_rows = [] \<and> bdtype three_rows = Float64
   \<and> consider_all truncating (ReservoirSampler_init 2) [(always_first, three_rows)]
       = Inr \<lparr>num_samples = 2, current = 3,
              data = Some \<lparr>rshape = [], rdtype = Float64, rrows = [Some 30, Some 20]\<rparr>\<rparr>
   \<and> (\<exists>s d. consider_all truncating (ReservoirSampler_init 2) [(always_first, three_rows)]
             = Inr s
           \<and> num_considered s = length [10, 20, 30 :: real]
           \<and> ReservoirSampler_get s = Inr (Some d)
           \<and> length (rrows d) = min 2 (length [10, 20, 30 :: real])
           \<and> (\<forall>r \<in> set (rrows d). \<exists>y \<in> set [10, 20, 30 :: real]. r = Some y))"
proof -
  have h2: "[(always_first, three_rows)] \<noteq> []" by simp
  have h3: "\<forall>(g, f) \<in> set [(always_first, three_rows)]. tshape f = [] \<and> bdtype f = Float64"
    by (simp add: three_rows_def)
  have h4: "[10, 20, 30 :: real] = concat (map (\<lambda>(g, f). items f) [(always_first, three_rows)])"
    by (simp add: three_rows_def)
  have h5: "tshape three_rows = []" "bdtype three_rows = Float64"
    by (simp_all add: three_rows_def)
  from reservoir_after_considering [OF h2 h3 h4, of truncating 2]
  have "\<exists>s d. consider_all truncating (ReservoirSampler_init 2) [(always_first, three_rows)]
             = Inr s
           \<and> num_considered s = length [10, 20, 30 :: real]
           \<and> ReservoirSampler_get s = Inr (Some d)
           \<and> length (rrows d) = min 2 (length [10, 20, 30 :: real])
           \<and> (\<forall>r \<in> set (rrows d). \<exists>y \<in> set [10, 20, 30 :: real]. r = Some y)"
    by blast
  then show ?thesis
    by (intro conjI h2 h5 three_rows_run)
qed

text \<open>
  C3 as stated fails in two ways. The reservoir takes the element type of the first
  batch and later rows are converted on assignment: after two integers and the float
  0.5, all of one trailing shape, \<open>get\<close> returns the rows 1, 2, 0, and 0 was never
  considered. And for the empty sequence of calls \<open>get\<close> does not return zero rows:
  it slices \<open>self._data\<close>, which is still None.
\<close>

theorem sampler_converts_rows_and_needs_a_call:
  "consider_all truncating (ReservoirSampler_init 3)
       [(always_first, two_ints), (always_first, one_half)]
     = Inr \<lparr>num_samples = 3, current = 3,
            data = Some \<lparr>rshape = [], rdtype = Int64, rrows = [Some 1, Some 2, Some 0]\<rparr>\<rparr>
   \<and> ReservoirSampler_get
       \<lparr>num_samples = 3, current = 3,
        data = Some \<lparr>rshape = [], rdtype = Int64, rrows = [Some 1, Some 2, Some (0::real)]\<rparr>\<rparr>
     = Inr (Some \<lparr>rshape = [], rdtype = Int64, rrows = [Some 1, Some 2, Some 0]\<rparr>)
   \<and> tshape two_ints = tshape one_half
   \<and> (0::real) \<notin> set (items two_ints @ items one_half)
   \<and> consider_all truncating (ReservoirSampler_init 3 :: real ReservoirSampler) []
     = Inr (ReservoirSampler_init 3)
   \<and> ReservoirSampler_get (ReservoirSampler_init 3 :: real ReservoirSampler) = Inl TypeError"
  by (simp add: ReservoirSampler_init_def ReservoirSampler_get_def always_first_def
      two_ints_def one_half_def truncating_def prepare_def np_randint_def np_rand_def
      assign_rows_def assign_slice_def stored_def Let_def)

subsection \<open>The GEMM wrapper\<close>

lemma elem_T: "elem (ndarray_T X) i j = elem X j i"
  by (simp add: elem_def ndarray_T_def add.commute)

lemma flags_sound_T:
  assumes "flags_sound X"
  shows "flags_sound (ndarray_T X)"
proof -
  have c: "i * stride1 X + j * stride0 X = i * shape0 X + j"
    if "f_contiguous X" "i < shape1 X" "j < shape0 X" for i j
  proof -
    from assms that have "j * stride0 X + i * stride1 X = j + i * shape0 X"
      unfolding flags_sound_def by blast
    then show ?thesis by (simp add: add.commute)
  qed
  have f: "i * stride1 X + j * stride0 X = i + j * shape1 X"
    if "c_contiguous X" "i < shape1 X" "j < shape0 X" for i j
  proof -
    from assms that have "j * stride0 X + i * stride1 X = j * shape1 X + i"
      unfolding flags_sound_def by blast
    then show ?thesis by (simp add: add.commute)
  qed
  show ?thesis
    unfolding flags_sound_def ndarray_T_def using c f by simp
qed

lemma elem_fresh_C: "j < n \<Longrightarrow> elem (fresh_C m n dt f) i j = f i j"
  by (simp add: elem_def fresh_C_def)

lemma flags_sound_fresh_C: "flags_sound (fresh_C m n dt f)"
  unfolding flags_sound_def fresh_C_def
  by (auto simp: less_Suc_eq_le le_Suc_eq)

lemma colmajor_read:
  assumes "flags_sound X" "f_contiguous X" "i < shape0 X" "j < shape1 X"
  shows "storage X (i + j * shape0 X) = elem X i j"
  using assms by (simp add: flags_sound_def elem_def)

lemma as_fortran_in_place:
  assumes "c_contiguous X \<or> f_contiguous X" "as_fortran X = (X2, t)"
  shows "f2py_operand who X2 = (\<lambda>i j. storage X2 (i + j * shape0 X2), [])"
  using assms
  by (auto simp: as_fortran_def f2py_operand_def ndarray_T_def split: if_splits)

lemma as_fortran_operand:
  assumes sound: "flags_sound X" and contig: "c_contiguous X \<or> f_contiguous X"
    and side: "as_fortran X = (X2, t)"
  shows "(if t then shape1 X2 else shape0 X2) = shape1 X"
    and "(if t then shape0 X2 else shape1 X2) = shape0 X"
    and "\<And>i j. i < shape0 X \<Longrightarrow> j < shape1 X \<Longrightarrow>
           (if t then storage X2 (i + j * shape0 X2) else storage X2 (j + i * shape0 X2)) = elem X i j"
proof -
  show "(if t then shape1 X2 else shape0 X2) = shape1 X"
    using side by (auto simp: as_fortran_def ndarray_T_def split: if_splits)
  show "(if t then shape0 X2 else shape1 X2) = shape0 X"
    using side by (auto simp: as_fortran_def ndarray_T_def split: if_splits)
  fix i j assume ij: "i < shape0 X" "j < shape1 X"
  show "(if t then storage X2 (i + j * shape0 X2) else storage X2 (j + i * shape0 X2)) = elem X i j"
  proof (cases "f_contiguous X")
    case True
    with side have "X2 = X" "t" by (simp_all add: as_fortran_def)
    with colmajor_read [OF sound True ij] show ?thesis by simp
  next
    case False
    with side have X2: "X2 = ndarray_T X" and t: "\<not> t" by (simp_all add: as_fortran_def)
    from False contig have "f_contiguous (ndarray_T X)" by (simp add: ndarray_T_def)
    from colmajor_read [OF flags_sound_T [OF sound] this, of j i] ij
    have "storage (ndarray_T X) (j + i * shape0 (ndarray_T X)) = elem (ndarray_T X) j i"
      by (simp add: ndarray_T_def)
    with X2 t show ?thesis by (simp add: elem_T)
  qed
qed

lemma elem_T_fresh_F:
  "j < n \<Longrightarrow> storage (ndarray_T (fresh_F n m dt f)) (i * n + j) = f j i"
  by (simp add: ndarray_T_def fresh_F_def)

lemma flags_sound_T_fresh_F: "flags_sound (ndarray_T (fresh_F n m dt f))"
  by (rule flags_sound_T) (auto simp: flags_sound_def fresh_F_def less_Suc_eq_le le_Suc_eq)

lemma gemm_converted:
  assumes soundA: "flags_sound A" and soundB: "flags_sound B1"
    and dt: "dtype A = Float32 \<or> dtype A = Float64"
    and contigA: "c_contiguous A \<or> f_contiguous A"
    and contigB: "c_contiguous B \<or> f_contiguous B"
    and contigB1: "c_contiguous B1 \<or> f_contiguous B1"
    and conv: "np_asarray cast OperandB B (dtype A) = (B1, convB)"
    and shapes: "shape1 A = shape0 B1"
  shows "\<exists>R. gemm cast alpha A B None = Inr (R, convB)
           \<and> shape0 R = shape0 A \<and> shape1 R = shape1 B1
           \<and> c_contiguous R \<and> flags_sound R \<and> dtype R = dtype A
           \<and> (\<forall>i<shape0 A. \<forall>j<shape1 B1.
                 storage R (i * shape1 B1 + j) = alpha * (\<Sum>l<shape1 A. elem A i l * elem B1 l j))"
proof -
  obtain B2 tb where B2: "as_fortran B1 = (B2, tb)" by (cases "as_fortran B1")
  obtain A2 ta where A2: "as_fortran A = (A2, ta)" by (cases "as_fortran A")
  note b = as_fortran_operand [OF soundB contigB1 B2]
  note a = as_fortran_operand [OF soundA contigA A2]
  note bp = as_fortran_in_place [OF contigB1 B2, of OperandB]
  note ap = as_fortran_in_place [OF contigA A2, of OperandA]
  define F where "F = (\<lambda>i j. alpha * (\<Sum>l<shape0 B1.
       (if tb then storage B2 (l + i * shape0 B2) else storage B2 (i + l * shape0 B2)) *
       (if ta then storage A2 (j + l * shape0 A2) else storage A2 (l + j * shape0 A2))))"
  define R where "R = ndarray_T (fresh_F (shape1 B1) (shape0 A) (dtype A) F)"
  have kernel: "fblas_gemm alpha (OperandB, B2) (OperandA, A2) tb ta (dtype A)
      = Inr (fresh_F (shape1 B1) (shape0 A) (dtype A) F, [])"
    using b(1,2) a(1,2) shapes
    by (cases tb; cases ta) (simp_all add: fblas_gemm_def bp ap F_def Let_def)
  have run: "gemm cast alpha A B None = Inr (R, convB)"
    using dt contigA contigB conv B2 A2 kernel
    by (auto simp: gemm_def np_asarray_def R_def)
  have entries: "storage R (i * shape1 B1 + j) = alpha * (\<Sum>l<shape1 A. elem A i l * elem B1 l j)"
    if ij: "i < shape0 A" "j < shape1 B1" for i j
  proof -
    have "storage R (i * shape1 B1 + j) = F j i"
      unfolding R_def using ij(2) by (rule elem_T_fresh_F)
    also have "\<dots> = alpha * (\<Sum>l<shape0 B1. elem B1 l j * elem A i l)"
      unfolding F_def
    proof (rule arg_cong [where f = "\<lambda>x. alpha * x"], rule sum.cong [OF refl])
      fix l assume "l \<in> {..<shape0 B1}"
      then have l: "l < shape0 B1" "l < shape1 A" using shapes by simp_all
      from b(3) [OF l(1) ij(2)] a(3) [OF ij(1) l(2)]
      show "(if tb then storage B2 (l + j * shape0 B2) else storage B2 (j + l * shape0 B2)) *
            (if ta then storage A2 (i + l * shape0 A2) else storage A2 (l + i * shape0 A2))
          = elem B1 l j * elem A i l"
        by simp
    qed
    finally show ?thesis by (simp add: shapes mult.commute)
  qed
  have "shape0 R = shape0 A" "shape1 R = shape1 B1" "c_contiguous R" "dtype R = dtype A"
    by (simp_all add: R_def ndarray_T_def fresh_F_def)
  moreover have "flags_sound R" unfolding R_def by (rule flags_sound_T_fresh_F)
  ultimately show ?thesis using run entries by blast
qed

lemma elem_fresh_F: "i < m \<Longrightarrow> elem (fresh_F m n dt f) i j = f i j"
  by (simp add: elem_def fresh_F_def)

lemma flags_sound_fresh_F: "flags_sound (fresh_F m n dt f)"
  unfolding flags_sound_def fresh_F_def
  by (auto simp: less_Suc_eq_le le_Suc_eq)

text \<open>
  C2 (as amended). Let A (m x k) be float32 or float64 and B (k x n) any array, each
  C- or F-contiguous with flags that keep their promise. Then \<open>gemm(alpha, A, B)\<close>
  returns an m x n array of A's type that is C-contiguous, whose row-major storage holds
  \<open>alpha * A * B\<close> (over the reals; B converted to A's type first when its type
  differs). The only copy ever made of an input is that conversion of B: with equal
  types no storage is copied, and the BLAS wrapper reads both operands in place.
\<close>

theorem gemm_row_major_product:
  assumes soundA: "flags_sound A" and soundB: "flags_sound B"
    and dt: "dtype A = Float32 \<or> dtype A = Float64"
    and contigA: "c_contiguous A \<or> f_contiguous A"
    and contigB: "c_contiguous B \<or> f_contiguous B"
    and shapes: "shape1 A = shape0 B"
  shows "\<exists>R copies. gemm cast alpha A B None = Inr (R, copies)
           \<and> shape0 R = shape0 A \<and> shape1 R = shape1 B
           \<and> c_contiguous R \<and> flags_sound R \<and> dtype R = dtype A
           \<and> (\<forall>i<shape0 A. \<forall>j<shape1 B.
                 storage R (i * shape1 B + j)
                   = alpha * (\<Sum>l<shape1 A. elem A i l *
                       (if dtype B = dtype A then elem B l j else cast (dtype A) (elem B l j))))
           \<and> copies = (if dtype B = dtype A then [] else [Converted OperandB])"
proof (cases "dtype B = dtype A")
  case True
  then have conv: "np_asarray cast OperandB B (dtype A) = (B, [])"
    by (simp add: np_asarray_def)
  from gemm_converted [OF soundA soundB dt contigA contigB contigB conv shapes, of alpha] True
  show ?thesis by auto
next
  case False
  define B1 where "B1 = fresh_C (shape0 B) (shape1 B) (dtype A) (\<lambda>i j. cast (dtype A) (elem B i j))"
  have conv: "np_asarray cast OperandB B (dtype A) = (B1, [Converted OperandB])"
    using False by (simp add: np_asarray_def B1_def)
  have s1: "flags_sound B1" unfolding B1_def by (rule flags_sound_fresh_C)
  have c1: "c_contiguous B1 \<or> f_contiguous B1" by (simp add: B1_def fresh_C_def)
  have sh: "shape0 B1 = shape0 B" "shape1 B1 = shape1 B" by (simp_all add: B1_def fresh_C_def)
  have el: "elem B1 l j = cast (dtype A) (elem B l j)" if "j < shape1 B" for l j
    unfolding B1_def using that by (rule elem_fresh_C)
  from gemm_converted [OF soundA s1 dt contigA contigB c1 conv, of alpha] shapes sh
  obtain R where R: "gemm cast alpha A B None = Inr (R, [Converted OperandB])"
    "shape0 R = shape0 A" "shape1 R = shape1 B" "c_contiguous R" "flags_sound R"
    "dtype R = dtype A"
    "\<And>i j. i < shape0 A \<Longrightarrow> j < shape1 B \<Longrightarrow>
       storage R (i * shape1 B + j) = alpha * (\<Sum>l<shape1 A. elem A i l * elem B1 l j)"
    by auto
  have "storage R (i * shape1 B + j)
      = alpha * (\<Sum>l<shape1 A. elem A i l * cast (dtype A) (elem B l j))"
    if "i < shape0 A" "j < shape1 B" for i j
    using R(7) [OF that] el [OF that(2)] by simp
  with R(1-6) False show ?thesis by auto
qed

theorem gemm_row_major_product_witness:
  "flags_sound (row_major_2x2 Float64 [[1, 2], [3, 4]])
   \<and> flags_sound (col_major_2x2 Float64 [[5, 6], [7, 8]])
   \<and> dtype (row_major_2x2 Float64 [[1, 2], [3, 4]]) = Float64
   \<and> c_contiguous (row_major_2x2 Float64 [[1, 2], [3, 4]])
   \<and> f_contiguous (col_major_2x2 Float64 [[5, 6], [7, 8]])
   \<and> shape1 (row_major_2x2 Float64 [[1, 2], [3, 4]])
       = shape0 (col_major_2x2 Float64 [[5, 6], [7, 8]])
   \<and> (\<exists>R. gemm exact 1 (row_major_2x2 Float64 [[1, 2], [3, 4]])
                (col_major_2x2 Float64 [[5, 6], [7, 8]]) None = Inr (R, [])
          \<and> c_contiguous R \<and> shape0 R = 2 \<and> shape1 R = 2
          \<and> map (storage R) [0, 1, 2, 3] = [19, 22, 43, 50])"
proof -
  let ?A = "row_major_2x2 Float64 [[1, 2], [3, 4]]"
  let ?B = "col_major_2x2 Float64 [[5, 6], [7, 8]]"
  have h1: "flags_sound ?A" unfolding row_major_2x2_def by (rule flags_sound_fresh_C)
  have h2: "flags_sound ?B" unfolding col_major_2x2_def by (rule flags_sound_fresh_F)
  have h3: "dtype ?A = Float64" by (simp add: row_major_2x2_def fresh_C_def)
  have h4: "c_contiguous ?A" by (simp add: row_major_2x2_def fresh_C_def)
  have h5: "f_contiguous ?B" by (simp add: col_major_2x2_def fresh_F_def)
  have h6: "shape1 ?A = shape0 ?B"
    by (simp add: row_major_2x2_def col_major_2x2_def fresh_C_def fresh_F_def)
  have dB: "dtype ?B = dtype ?A"
    by (simp add: row_major_2x2_def col_major_2x2_def fresh_C_def fresh_F_def)
  have shp: "shape0 ?A = 2" "shape1 ?A = 2" "shape1 ?B = 2"
    by (simp_all add: row_major_2x2_def col_major_2x2_def fresh_C_def fresh_F_def)
  have eA: "elem ?A i l = [[1, 2], [3, 4]] ! i ! l" if "l < 2" for i l
    unfolding row_major_2x2_def using that by (rule elem_fresh_C)
  have eB: "elem ?B l j = [[5, 6], [7, 8]] ! l ! j" if "l < 2" for l j
    unfolding col_major_2x2_def using that by (rule elem_fresh_F)
  from gemm_row_major_product [OF h1 h2 disjI2 [OF h3] disjI1 [OF h4] disjI2 [OF h5] h6,
      of exact 1]
  obtain R copies where run0: "gemm exact 1 ?A ?B None = Inr (R, copies)"
    and sh0: "shape0 R = shape0 ?A" "shape1 R = shape1 ?B"
    and cc: "c_contiguous R"
    and ent0: "\<forall>i<shape0 ?A. \<forall>j<shape1 ?B.
                 storage R (i * shape1 ?B + j)
                   = 1 * (\<Sum>l<shape1 ?A. elem ?A i l *
                       (if dtype ?B = dtype ?A then elem ?B l j
                        else exact (dtype ?A) (elem ?B l j)))"
    and cp: "copies = (if dtype ?B = dtype ?A then [] else [Converted OperandB])"
    by (elim exE conjE)
  have run: "gemm exact 1 ?A ?B None = Inr (R, [])"
    using run0 cp dB by simp
  have sh: "shape0 R = 2" "shape1 R = 2"
    using sh0 shp by simp_all
  have ent: "storage R (i * 2 + j) = (\<Sum>l<2. elem ?A i l * elem ?B l j)"
    if "i < 2" "j < 2" for i j
    using ent0 that by (simp add: dB shp)
  have two: "{..<2::nat} = {0, 1}" by auto
  have "storage R 0 = 19" using ent [of 0 0] by (simp add: two eA eB)
  moreover have "storage R 1 = 22" using ent [of 0 1] by (simp add: two eA eB)
  moreover have "storage R 2 = 43" using ent [of 1 0] by (simp add: two eA eB)
  moreover have "storage R 3 = 50" using ent [of 1 1] by (simp add: two eA eB)
  ultimately have "map (storage R) [0, 1, 2, 3] = [19, 22, 43, 50]" by simp
  with run cc sh have "\<exists>R. gemm exact 1 ?A ?B None = Inr (R, [])
          \<and> c_contiguous R \<and> shape0 R = 2 \<and> shape1 R = 2
          \<and> map (storage R) [0, 1, 2, 3] = [19, 22, 43, 50]"
    by (intro exI [of _ R] conjI)
  then show ?thesis by (intro conjI h1 h2 h3 h4 h5 h6)
qed

text \<open>
  C2 as stated fails for a float64 A and a float32 B: \<open>np.asarray(B, dtype=dtype)\<close>
  copies B's storage into a new float64 array.
\<close>

theorem gemm_mixed_dtype_copies:
  "map_sum id snd (gemm exact 1 (row_major_2x2 Float64 [[1, 2], [3, 4]])
                     (row_major_2x2 Float32 [[5, 6], [7, 8]]) None)
     = Inr [Converted OperandB]"
  by (simp add: gemm_def np_asarray_def as_fortran_def fblas_gemm_def f2py_operand_def
      row_major_2x2_def fresh_C_def fresh_F_def ndarray_T_def Let_def)

subsection \<open>PCA and ZCA training\<close>

text \<open>
  C5 fails on the code. \<open>PcaTrainer.train\<close> starts with
  \<open>mathutil.mpi_meancov(incoming_patches)\<close>, and \<open>mathutil.py\<close> defines \<open>mpi_mean\<close>,
  \<open>mpi_std\<close> and \<open>mpi_cov\<close> but no \<open>mpi_meancov\<close>: the lookup raises AttributeError
  on every batch, and \<open>ZcaTrainer.train\<close>, which calls it, raises with it.
\<close>

theorem pca_train_raises_attribute_error:
  "PcaTrainer_train call eigh sp incoming_patches = Inl AttributeError
   \<and> ZcaTrainer_train call eigh sp incoming_patches = Inl AttributeError"
  by (simp add: PcaTrainer_train_def ZcaTrainer_train_def getattr_module_def
      mathutil_module_def)

end
